theory Spec2Isabelle
  imports Main
begin

section \<open>Source buffers, ranges and the string operations of the renamer\<close>

text \<open>
  The model follows \<^verbatim>\<open>lib/IDE/Refactoring.cpp\<close>. A source buffer is a \<^typ>\<open>string\<close>; a
  \<^verbatim>\<open>CharSourceRange\<close> is a start offset into the buffer and a byte length. A function
  that can stop at a failed \<^verbatim>\<open>assert\<close>, at \<^verbatim>\<open>llvm_unreachable\<close> or at an out-of-range
  \<^verbatim>\<open>ArrayRef\<close> access returns an \<^typ>\<open>'a option\<close>, with \<^term>\<open>None\<close> for that stop.
\<close>

record CharSourceRange =
  Start :: nat
  ByteLength :: nat

definition getEnd :: "CharSourceRange \<Rightarrow> nat" where
  "getEnd r = Start r + ByteLength r"

definition str :: "string \<Rightarrow> CharSourceRange \<Rightarrow> string" where
  "str buf r = take (ByteLength r) (drop (Start r) buf)"

definition mkRange :: "nat \<Rightarrow> nat \<Rightarrow> CharSourceRange" where
  "mkRange s n = \<lparr>Start = s, ByteLength = n\<rparr>"

text \<open>The default character set of \<^verbatim>\<open>StringRef::ltrim\<close> and \<^verbatim>\<open>rtrim\<close>: \<^verbatim>\<open>" \t\n\v\f\r"\<close>.\<close>

definition whitespaceChars :: "char list" where
  "whitespaceChars = [CHR '' '', CHR 0x09, CHR 0x0A, CHR 0x0B, CHR 0x0C, CHR 0x0D]"

text \<open>The set \<^verbatim>\<open>" \t\n\v\f\r/"\<close> that \<^verbatim>\<open>splitAndRenameParamLabel\<close> searches for.\<close>

definition boundaryChars :: "char list" where
  "boundaryChars = whitespaceChars @ [CHR ''/'']"

text \<open>\<^verbatim>\<open>StringRef::find_first_of\<close>; \<^term>\<open>None\<close> is \<^verbatim>\<open>npos\<close>.\<close>

fun find_first_of :: "string \<Rightarrow> char list \<Rightarrow> nat option" where
  "find_first_of [] cs = None"
| "find_first_of (x # xs) cs =
     (if x \<in> set cs then Some 0 else map_option Suc (find_first_of xs cs))"

text \<open>\<^verbatim>\<open>StringRef::find_last_of\<close>.\<close>

definition find_last_of :: "string \<Rightarrow> char list \<Rightarrow> nat option" where
  "find_last_of s cs =
     (case find_first_of (rev s) cs of
        None \<Rightarrow> None
      | Some i \<Rightarrow> Some (length s - 1 - i))"

text \<open>\<^verbatim>\<open>StringRef::find(char)\<close>.\<close>

definition find_char :: "string \<Rightarrow> char \<Rightarrow> nat option" where
  "find_char s c = find_first_of s [c]"

definition ltrim :: "string \<Rightarrow> string" where
  "ltrim s = dropWhile (\<lambda>c. c \<in> set whitespaceChars) s"

definition rtrim :: "string \<Rightarrow> string" where
  "rtrim s = rev (dropWhile (\<lambda>c. c \<in> set whitespaceChars) (rev s))"

text \<open>\<^verbatim>\<open>ArrayRef::operator[]\<close>, which asserts that the index is in range.\<close>

definition at :: "'a list \<Rightarrow> nat \<Rightarrow> 'a option" where
  "at xs i = (if i < length xs then Some (xs ! i) else None)"

section \<open>The renamer\<close>

datatype LabelRangeType = NoLabel | CallArg | Param | NoncollapsibleParam | Selector

datatype RefactoringRangeKind =
    BaseName
  | KeywordBaseName
  | ParameterName
  | NoncollapsibleParameterName
  | DeclArgumentLabel
  | CallArgumentLabel
  | CallArgumentColon
  | CallArgumentCombined
  | SelectorArgumentLabel

text \<open>
  The abstract class \<^verbatim>\<open>Renamer\<close> reports its work through the two virtual hooks
  \<^verbatim>\<open>doRenameBase\<close> and \<^verbatim>\<open>doRenameLabel\<close>. Neither returns a value, so the matcher is
  modelled as producing the list of hook calls, in call order; each of its two
  implementations then consumes that list.
\<close>

datatype RenameCall =
    DoRenameBase CharSourceRange RefactoringRangeKind
  | DoRenameLabel CharSourceRange RefactoringRangeKind nat

text \<open>The old compound name as \<^verbatim>\<open>DeclNameViewer\<close> presents it: base name and labels.\<close>

record DeclNameViewer =
  base :: string
  args :: "string list"

definition stripBackticks :: "string \<Rightarrow> CharSourceRange \<Rightarrow> CharSourceRange" where
  "stripBackticks buf Rng =
     (let Content = str buf Rng in
      if length Content < 3 \<or> hd Content \<noteq> CHR 0x60 \<or> last Content \<noteq> CHR 0x60
      then Rng
      else mkRange (Start Rng + 1) (ByteLength Rng - 2))"

definition renameBase ::
  "string \<Rightarrow> DeclNameViewer \<Rightarrow> CharSourceRange \<Rightarrow> RefactoringRangeKind
     \<Rightarrow> bool \<times> RenameCall list" where
  "renameBase buf Old Rng RangeKind =
     (if str buf (stripBackticks buf Rng) \<noteq> base Old then (True, [])
      else (False, [DoRenameBase Rng RangeKind]))"

definition splitAndRenameParamLabel ::
  "string \<Rightarrow> CharSourceRange \<Rightarrow> nat \<Rightarrow> bool \<Rightarrow> RenameCall list option" where
  "splitAndRenameParamLabel buf Rng NameIndex IsCollapsible =
     (let Content = str buf Rng in
      case find_first_of Content boundaryChars of
        None \<Rightarrow>
          if IsCollapsible
          then Some [DoRenameLabel Rng DeclArgumentLabel NameIndex,
                     DoRenameLabel (mkRange (getEnd Rng) 0) ParameterName NameIndex]
          else Some [DoRenameLabel (mkRange (Start Rng) 0) DeclArgumentLabel NameIndex,
                     DoRenameLabel Rng NoncollapsibleParameterName NameIndex]
      | Some ExternalNameEnd \<Rightarrow>
          (case find_last_of Content boundaryChars of
             None \<Rightarrow> None
           | Some LastBoundary \<Rightarrow>
               let Ext = mkRange (Start Rng) ExternalNameEnd;
                   LocalNameStart = (if IsCollapsible then LastBoundary else LastBoundary + 1);
                   Local = mkRange (Start Rng + LocalNameStart)
                                   (length Content - LocalNameStart)
               in Some [DoRenameLabel Ext DeclArgumentLabel NameIndex,
                        DoRenameLabel Local
                          (if IsCollapsible then ParameterName
                           else NoncollapsibleParameterName) NameIndex]))"

definition splitAndRenameCallArg ::
  "string \<Rightarrow> CharSourceRange \<Rightarrow> nat \<Rightarrow> RenameCall list option" where
  "splitAndRenameCallArg buf Rng NameIndex =
     (let Content = str buf Rng in
      case find_char Content CHR '':'' of
        None \<Rightarrow>
          if Content = [] then Some [DoRenameLabel Rng CallArgumentCombined NameIndex]
          else None
      | Some Colon0 \<Rightarrow>
          let Colon = length (rtrim (take Colon0 Content));
              Arg = mkRange (Start Rng) Colon;
              Rest = mkRange (Start Rng + Colon) (length Content - Colon)
          in Some [DoRenameLabel Arg CallArgumentLabel NameIndex,
                   DoRenameLabel Rest CallArgumentColon NameIndex])"

definition splitAndRenameLabel ::
  "string \<Rightarrow> CharSourceRange \<Rightarrow> LabelRangeType \<Rightarrow> nat \<Rightarrow> RenameCall list option" where
  "splitAndRenameLabel buf Rng RangeType NameIndex =
     (case RangeType of
        CallArg \<Rightarrow> splitAndRenameCallArg buf Rng NameIndex
      | Param \<Rightarrow> splitAndRenameParamLabel buf Rng NameIndex True
      | NoncollapsibleParam \<Rightarrow> splitAndRenameParamLabel buf Rng NameIndex False
      | Selector \<Rightarrow> Some [DoRenameLabel Rng SelectorArgumentLabel NameIndex]
      | NoLabel \<Rightarrow> None)"


text \<open>
  \<^verbatim>\<open>getLeadingIdentifierRange\<close> asks the lexer for the token that starts at a location
  (\<^verbatim>\<open>Lexer::getCharSourceRangeFromSourceRange\<close>). The lexer is not part of this file, so
  the model takes it as the parameter \<open>lexTok\<close>: the byte length of the token that starts
  at an offset of the buffer.
\<close>

type_synonym lexer = "string \<Rightarrow> nat \<Rightarrow> nat"

definition getLeadingIdentifierRange ::
  "lexer \<Rightarrow> string \<Rightarrow> CharSourceRange \<Rightarrow> bool \<times> CharSourceRange" where
  "getLeadingIdentifierRange lexTok buf Rng =
     (let IsEscaped = (case str buf Rng of [] \<Rightarrow> False | c # _ \<Rightarrow> c = CHR 0x60);
          S = (if IsEscaped then Start Rng + 1 else Start Rng)
      in (IsEscaped, mkRange S (lexTok buf S)))"

definition labelRangeMatches ::
  "lexer \<Rightarrow> string \<Rightarrow> CharSourceRange \<Rightarrow> LabelRangeType \<Rightarrow> string \<Rightarrow> bool option" where
  "labelRangeMatches lexTok buf Rng RangeType Expected =
     (if ByteLength Rng \<noteq> 0 then
        (let (IsEscaped, ExistingLabelRange) = getLeadingIdentifierRange lexTok buf Rng;
             ExistingLabel = str buf ExistingLabelRange;
             IsSingleName = (Rng = ExistingLabelRange \<or>
                             (IsEscaped \<and> ByteLength Rng = length ExistingLabel + 2));
             Same = (ExistingLabel = (if Expected = [] then ''_'' else Expected))
         in case RangeType of
              NoncollapsibleParam \<Rightarrow>
                Some (if IsSingleName \<and> Expected = [] then True else Same)
            | CallArg \<Rightarrow> Some Same
            | Param \<Rightarrow> Some Same
            | Selector \<Rightarrow> Some Same
            | NoLabel \<Rightarrow> None)
      else Some (Expected = []))"

text \<open>
  After a label was split, the loop goes on: the hook calls of the split come first, then
  those of the rest of the loop.
\<close>

definition thenCalls ::
  "RenameCall list option \<Rightarrow> (bool \<times> RenameCall list) option
     \<Rightarrow> (bool \<times> RenameCall list) option" where
  "thenCalls split rest =
     (case split of
        None \<Rightarrow> None
      | Some es \<Rightarrow> (case rest of None \<Rightarrow> None | Some (b, es') \<Rightarrow> Some (b, es @ es')))"

text \<open>The loop of the strict branch of \<^verbatim>\<open>renameLabels\<close>, from \<^verbatim>\<open>Index\<close> on.\<close>

fun renameLabelsStrictLoop ::
  "lexer \<Rightarrow> string \<Rightarrow> string list \<Rightarrow> LabelRangeType \<Rightarrow> CharSourceRange list \<Rightarrow> nat
     \<Rightarrow> (bool \<times> RenameCall list) option" where
  "renameLabelsStrictLoop lexTok buf OldLabels RangeType [] Index = Some (False, [])"
| "renameLabelsStrictLoop lexTok buf OldLabels RangeType (LabelRange # rest) Index =
     (case at OldLabels Index of
        None \<Rightarrow> None
      | Some Expected \<Rightarrow>
          (case labelRangeMatches lexTok buf LabelRange RangeType Expected of
             None \<Rightarrow> None
           | Some False \<Rightarrow> Some (True, [])
           | Some True \<Rightarrow>
               thenCalls (splitAndRenameLabel buf LabelRange RangeType Index)
                 (renameLabelsStrictLoop lexTok buf OldLabels RangeType rest (Suc Index))))"

text \<open>
  The two \<^verbatim>\<open>while\<close> loops of the trailing-closure phase drop old labels from the back
  until one satisfies the test; the two of the front phase advance \<^verbatim>\<open>NameIndex\<close> until
  one does. A loop ends in one of three ways.
\<close>

datatype 'a scan = ScanStop | ScanMismatch | ScanAt 'a

function scanBack :: "(string \<Rightarrow> bool option) \<Rightarrow> string list \<Rightarrow> string list scan" where
  "scanBack test OldNames =
     (if OldNames = [] then ScanStop
      else case test (last OldNames) of
             None \<Rightarrow> ScanStop
           | Some True \<Rightarrow> ScanAt OldNames
           | Some False \<Rightarrow>
               (if butlast OldNames = [] then ScanMismatch
                else scanBack test (butlast OldNames)))"
  by pat_completeness auto
termination
  by (relation "measure (\<lambda>(test, OldNames). length OldNames)") auto

function scanFront :: "(string \<Rightarrow> bool option) \<Rightarrow> string list \<Rightarrow> nat \<Rightarrow> nat scan" where
  "scanFront test OldNames NameIndex =
     (case at OldNames NameIndex of
        None \<Rightarrow> ScanStop
      | Some Expected \<Rightarrow>
          (case test Expected of
             None \<Rightarrow> ScanStop
           | Some True \<Rightarrow> ScanAt NameIndex
           | Some False \<Rightarrow>
               (if Suc NameIndex \<ge> length OldNames then ScanMismatch
                else scanFront test OldNames (Suc NameIndex))))"
  by pat_completeness auto
termination
  by (relation "measure (\<lambda>(test, OldNames, NameIndex). length OldNames - NameIndex)") auto

declare scanBack.simps [simp del]

declare scanFront.simps [simp del]

definition isEmptyLabel :: "string \<Rightarrow> bool option" where
  "isEmptyLabel s = Some (s = [])"

text \<open>
  The first loop of \<^verbatim>\<open>renameLabelsLenient\<close>, over
  \<^verbatim>\<open>llvm::reverse(indices(TrailingLabels))\<close>: the list holds the pairs of index and label
  still to visit. The result also carries the old labels that are left.
\<close>

fun trailingLoop ::
  "lexer \<Rightarrow> string \<Rightarrow> (nat \<times> CharSourceRange) list \<Rightarrow> string list
     \<Rightarrow> (bool \<times> string list \<times> RenameCall list) option" where
  "trailingLoop lexTok buf [] OldNames = Some (False, OldNames, [])"
| "trailingLoop lexTok buf ((LabelIndex, Label) # rest) OldNames =
     (if ByteLength Label \<noteq> 0 then
        (if OldNames = [] then Some (True, OldNames, [])
         else case scanBack (labelRangeMatches lexTok buf Label Selector) OldNames of
                ScanStop \<Rightarrow> None
              | ScanMismatch \<Rightarrow> Some (True, [], [])
              | ScanAt Names \<Rightarrow>
                  (case splitAndRenameLabel buf Label Selector (length Names - 1) of
                     None \<Rightarrow> None
                   | Some es \<Rightarrow>
                       (case trailingLoop lexTok buf rest (butlast Names) of
                          None \<Rightarrow> None
                        | Some (b, Names', es') \<Rightarrow> Some (b, Names', es @ es'))))
      else if LabelIndex \<noteq> 0 then
        (if OldNames = [] then Some (True, OldNames, [])
         else case scanBack isEmptyLabel OldNames of
                ScanStop \<Rightarrow> None
              | ScanMismatch \<Rightarrow> Some (True, [], [])
              | ScanAt Names \<Rightarrow>
                  (case splitAndRenameLabel buf Label Selector (length Names - 1) of
                     None \<Rightarrow> None
                   | Some es \<Rightarrow>
                       (case trailingLoop lexTok buf rest (butlast Names) of
                          None \<Rightarrow> None
                        | Some (b, Names', es') \<Rightarrow> Some (b, Names', es @ es'))))
      else if OldNames = [] then None
      else trailingLoop lexTok buf rest (butlast OldNames))"

text \<open>The second loop of \<^verbatim>\<open>renameLabelsLenient\<close>, over the labels that are left.\<close>

fun frontLoop ::
  "lexer \<Rightarrow> string \<Rightarrow> string list \<Rightarrow> LabelRangeType \<Rightarrow> CharSourceRange list \<Rightarrow> nat
     \<Rightarrow> (bool \<times> RenameCall list) option" where
  "frontLoop lexTok buf OldNames RangeType [] NameIndex = Some (False, [])"
| "frontLoop lexTok buf OldNames RangeType (Label # rest) NameIndex =
     (if ByteLength Label = 0 then
        (if NameIndex = 0 then
           (case scanFront isEmptyLabel OldNames NameIndex of
              ScanStop \<Rightarrow> None
            | ScanMismatch \<Rightarrow> Some (True, [])
            | ScanAt k \<Rightarrow>
                thenCalls (splitAndRenameLabel buf Label RangeType k)
                  (frontLoop lexTok buf OldNames RangeType rest (Suc k)))
         else if NameIndex \<ge> length OldNames \<or> OldNames ! NameIndex \<noteq> [] then
           frontLoop lexTok buf OldNames RangeType rest NameIndex
         else
           thenCalls (splitAndRenameLabel buf Label RangeType NameIndex)
             (frontLoop lexTok buf OldNames RangeType rest (Suc NameIndex)))
      else if NameIndex \<ge> length OldNames then Some (True, [])
      else
        (case scanFront (labelRangeMatches lexTok buf Label RangeType) OldNames NameIndex of
           ScanStop \<Rightarrow> None
         | ScanMismatch \<Rightarrow> Some (True, [])
         | ScanAt k \<Rightarrow>
             thenCalls (splitAndRenameLabel buf Label RangeType k)
               (frontLoop lexTok buf OldNames RangeType rest (Suc k))))"

definition renameLabelsLenient ::
  "lexer \<Rightarrow> string \<Rightarrow> DeclNameViewer \<Rightarrow> CharSourceRange list \<Rightarrow> nat option
     \<Rightarrow> LabelRangeType \<Rightarrow> (bool \<times> RenameCall list) option" where
  "renameLabelsLenient lexTok buf Old LabelRanges FirstTrailingLabel RangeType =
     (case FirstTrailingLabel of
        None \<Rightarrow> frontLoop lexTok buf (args Old) RangeType LabelRanges 0
      | Some n \<Rightarrow>
          if n > length LabelRanges then None
          else
            (let TrailingLabels = drop n LabelRanges;
                 FrontLabels = take n LabelRanges
             in case trailingLoop lexTok buf (rev (enumerate 0 TrailingLabels)) (args Old) of
                  None \<Rightarrow> None
                | Some (True, OldNames, es) \<Rightarrow> Some (True, es)
                | Some (False, OldNames, es) \<Rightarrow>
                    thenCalls (Some es)
                      (frontLoop lexTok buf OldNames RangeType FrontLabels 0)))"

definition renameLabels ::
  "lexer \<Rightarrow> string \<Rightarrow> DeclNameViewer \<Rightarrow> CharSourceRange list \<Rightarrow> nat option
     \<Rightarrow> LabelRangeType \<Rightarrow> bool \<Rightarrow> (bool \<times> RenameCall list) option" where
  "renameLabels lexTok buf Old LabelRanges FirstTrailingLabel RangeType isCallSite =
     (if isCallSite then
        renameLabelsLenient lexTok buf Old LabelRanges FirstTrailingLabel RangeType
      else if FirstTrailingLabel \<noteq> None then None
      else if length (args Old) \<noteq> length LabelRanges then Some (True, [])
      else renameLabelsStrictLoop lexTok buf (args Old) RangeType LabelRanges 0)"


section \<open>The two implementations of the renamer\<close>

text \<open>\<^verbatim>\<open>RenameRangeDetailCollector\<close> records every hook call as a range detail.\<close>

type_synonym RenameRangeDetail = "CharSourceRange \<times> RefactoringRangeKind \<times> nat option"

fun collectorCall :: "RenameCall \<Rightarrow> RenameRangeDetail" where
  "collectorCall (DoRenameLabel Label RangeKind NameIndex) = (Label, RangeKind, Some NameIndex)"
| "collectorCall (DoRenameBase Rng RangeKind) = (Rng, RangeKind, None)"

text \<open>
  \<^verbatim>\<open>TextReplacementsRenamer\<close>. A replacement is a range and its new text;
  \<^verbatim>\<open>registerText\<close> only interns the string, so it is the identity here.
\<close>

type_synonym Replacement = "CharSourceRange \<times> string"

definition getCallArgLabelReplacement :: "string \<Rightarrow> string \<Rightarrow> string" where
  "getCallArgLabelReplacement OldLabelRange NewLabel = (if NewLabel = [] then [] else NewLabel)"

definition getCallArgColonReplacement :: "string \<Rightarrow> string \<Rightarrow> string" where
  "getCallArgColonReplacement OldLabelRange NewLabel =
     (if NewLabel = [] then []
      else if OldLabelRange = [] then '': ''
      else OldLabelRange)"

definition getCallArgCombinedReplacement :: "string \<Rightarrow> string \<Rightarrow> string option" where
  "getCallArgCombinedReplacement OldArgLabel NewArgLabel =
     (if OldArgLabel \<noteq> [] then None
      else if NewArgLabel = [] then Some []
      else Some (NewArgLabel @ '': ''))"

definition getParamNameReplacement :: "string \<Rightarrow> string \<Rightarrow> string \<Rightarrow> string" where
  "getParamNameReplacement OldParam OldArgLabel NewArgLabel =
     (if NewArgLabel \<noteq> [] \<and> ltrim OldParam = NewArgLabel then []
      else if NewArgLabel = [] \<and> OldArgLabel \<noteq> [] \<and> OldParam = [] then '' '' @ OldArgLabel
      else OldParam)"

definition getDeclArgumentLabelReplacement :: "string \<Rightarrow> string \<Rightarrow> string" where
  "getDeclArgumentLabelReplacement OldLabelRange NewArgLabel =
     (if NewArgLabel = [] then (if OldLabelRange = [] then [] else ''_'')
      else if OldLabelRange = [] then NewArgLabel @ '' ''
      else NewArgLabel)"

fun getReplacementText ::
  "string \<Rightarrow> RefactoringRangeKind \<Rightarrow> string \<Rightarrow> string \<Rightarrow> string option" where
  "getReplacementText LabelRange CallArgumentLabel OldLabel NewLabel =
     Some (getCallArgLabelReplacement LabelRange NewLabel)"
| "getReplacementText LabelRange CallArgumentColon OldLabel NewLabel =
     Some (getCallArgColonReplacement LabelRange NewLabel)"
| "getReplacementText LabelRange CallArgumentCombined OldLabel NewLabel =
     getCallArgCombinedReplacement LabelRange NewLabel"
| "getReplacementText LabelRange ParameterName OldLabel NewLabel =
     Some (getParamNameReplacement LabelRange OldLabel NewLabel)"
| "getReplacementText LabelRange NoncollapsibleParameterName OldLabel NewLabel =
     Some LabelRange"
| "getReplacementText LabelRange DeclArgumentLabel OldLabel NewLabel =
     Some (getDeclArgumentLabelReplacement LabelRange NewLabel)"
| "getReplacementText LabelRange SelectorArgumentLabel OldLabel NewLabel =
     Some (if NewLabel = [] then ''_'' else NewLabel)"
| "getReplacementText LabelRange BaseName OldLabel NewLabel = None"
| "getReplacementText LabelRange KeywordBaseName OldLabel NewLabel = None"

text \<open>Each hook returns the replacements it pushes onto \<^verbatim>\<open>Replacements\<close>.\<close>

definition addReplacement ::
  "string \<Rightarrow> CharSourceRange \<Rightarrow> RefactoringRangeKind \<Rightarrow> string \<Rightarrow> string
     \<Rightarrow> Replacement list option" where
  "addReplacement buf LabelRange RangeKind OldLabel NewLabel =
     (let ExistingLabel = str buf LabelRange in
      case getReplacementText ExistingLabel RangeKind OldLabel NewLabel of
        None \<Rightarrow> None
      | Some Text \<Rightarrow> Some (if Text \<noteq> ExistingLabel then [(LabelRange, Text)] else []))"

definition doRenameLabel ::
  "string \<Rightarrow> DeclNameViewer \<Rightarrow> DeclNameViewer \<Rightarrow> CharSourceRange \<Rightarrow> RefactoringRangeKind
     \<Rightarrow> nat \<Rightarrow> Replacement list option" where
  "doRenameLabel buf Old New Label RangeKind NameIndex =
     (case at (args Old) NameIndex of
        None \<Rightarrow> None
      | Some OldLabel \<Rightarrow>
          (case at (args New) NameIndex of
             None \<Rightarrow> None
           | Some NewLabel \<Rightarrow> addReplacement buf Label RangeKind OldLabel NewLabel))"

definition doRenameBase ::
  "DeclNameViewer \<Rightarrow> DeclNameViewer \<Rightarrow> CharSourceRange \<Rightarrow> Replacement list" where
  "doRenameBase Old New Rng = (if base Old \<noteq> base New then [(Rng, base New)] else [])"

fun textCall ::
  "string \<Rightarrow> DeclNameViewer \<Rightarrow> DeclNameViewer \<Rightarrow> RenameCall \<Rightarrow> Replacement list option" where
  "textCall buf Old New (DoRenameLabel Label RangeKind NameIndex) =
     doRenameLabel buf Old New Label RangeKind NameIndex"
| "textCall buf Old New (DoRenameBase Rng RangeKind) = Some (doRenameBase Old New Rng)"

text \<open>\<^verbatim>\<open>getReplacements\<close> after the hook calls \<open>calls\<close>, made in this order.\<close>

fun getReplacements ::
  "string \<Rightarrow> DeclNameViewer \<Rightarrow> DeclNameViewer \<Rightarrow> RenameCall list \<Rightarrow> Replacement list option" where
  "getReplacements buf Old New [] = Some []"
| "getReplacements buf Old New (c # calls) =
     (case textCall buf Old New c of
        None \<Rightarrow> None
      | Some rs \<Rightarrow>
          (case getReplacements buf Old New calls of
             None \<Rightarrow> None
           | Some rs' \<Rightarrow> Some (rs @ rs')))"

section \<open>One occurrence, and the rename of all occurrences\<close>

datatype NameUsage = Unknown | Reference | Definition | Call

datatype RegionType =
    RegionUnmatched
  | RegionMismatch
  | RegionActiveCode
  | RegionInactiveCode
  | RegionString
  | RegionSelector
  | RegionComment

text \<open>What the resolved location points at: nothing, a string literal, or another node.\<close>

datatype ResolvedNode = NullNode | StringLiteralNode | OtherNode

text \<open>\<^verbatim>\<open>ResolvedLoc\<close>; an invalid \<^verbatim>\<open>Range\<close> is \<^term>\<open>None\<close>.\<close>

record ResolvedLoc =
  ResolvedNodeKind :: ResolvedNode
  ResolvedRange :: "CharSourceRange option"
  LabelRanges :: "CharSourceRange list"
  FirstTrailingLabel :: "nat option"
  LabelType :: LabelRangeType
  IsActive :: bool
  IsInSelector :: bool

text \<open>
  \<^verbatim>\<open>RenameLoc\<close>, with the old and the new name as \<^verbatim>\<open>DeclNameViewer\<close> parses them (the
  parser is not part of this file).
\<close>

record RenameLoc =
  Usage :: NameUsage
  OldName :: DeclNameViewer
  NewName :: DeclNameViewer
  IsFunctionLike :: bool
  IsNonProtocolType :: bool

definition getSyntacticRenameRegionType :: "ResolvedLoc \<Rightarrow> RegionType" where
  "getSyntacticRenameRegionType Resolved =
     (if ResolvedNodeKind Resolved = NullNode then RegionComment
      else if ResolvedNodeKind Resolved = StringLiteralNode then RegionString
      else if IsInSelector Resolved then RegionSelector
      else if IsActive Resolved then RegionActiveCode
      else RegionInactiveCode)"

text \<open>
  The base-name step of \<^verbatim>\<open>addSyntacticRenameRanges\<close>: whether it returns
  \<^verbatim>\<open>Mismatch\<close>, and the hook calls it made.
\<close>

definition renameBaseStep ::
  "string \<Rightarrow> DeclNameViewer \<Rightarrow> CharSourceRange \<Rightarrow> RenameLoc \<Rightarrow> bool \<times> RenameCall list" where
  "renameBaseStep buf Old Rng Config =
     (let IsSubscript = (base Old = ''subscript'' \<and> IsFunctionLike Config);
          IsInit = (base Old = ''init'' \<and> IsFunctionLike Config);
          IsCallAsFunction = (base Old = ''callAsFunction'' \<and> IsFunctionLike Config);
          IsSpecialBase = (IsInit \<or> IsSubscript \<or> IsCallAsFunction)
      in if \<not> IsFunctionLike Config \<or> \<not> IsSpecialBase then renameBase buf Old Rng BaseName
         else if IsInit \<or> IsCallAsFunction then
           (case renameBase buf Old Rng KeywordBaseName of
              (m, cs) \<Rightarrow> (m \<and> (Usage Config = Definition \<or> Usage Config = Reference), cs))
         else if IsSubscript \<and> Usage Config = Definition then
           renameBase buf Old Rng KeywordBaseName
         else (False, []))"

text \<open>
  \<^verbatim>\<open>Lexer::isOperator\<close> of the old base name is the parameter \<open>isOperatorName\<close>.
\<close>

definition addSyntacticRenameRanges ::
  "lexer \<Rightarrow> (string \<Rightarrow> bool) \<Rightarrow> string \<Rightarrow> DeclNameViewer \<Rightarrow> ResolvedLoc \<Rightarrow> RenameLoc
     \<Rightarrow> (RegionType \<times> RenameCall list) option" where
  "addSyntacticRenameRanges lexTok isOperatorName buf Old Resolved Config =
     (case ResolvedRange Resolved of
        None \<Rightarrow> Some (RegionUnmatched, [])
      | Some Rng \<Rightarrow>
          (let RegionKind = getSyntacticRenameRegionType Resolved;
               IsSubscript = (base Old = ''subscript'' \<and> IsFunctionLike Config);
               IsInit = (base Old = ''init'' \<and> IsFunctionLike Config);
               IsCallAsFunction = (base Old = ''callAsFunction'' \<and> IsFunctionLike Config);
               IsSpecialBase = (IsInit \<or> IsSubscript \<or> IsCallAsFunction)
           in if RegionKind = RegionActiveCode \<and> Usage Config = Unknown
              then Some (RegionUnmatched, [])
              else if Usage Config = Call \<and> \<not> IsFunctionLike Config then None
              else if IsSpecialBase \<and> Usage Config = Unknown \<and> LabelType Resolved = NoLabel
              then Some (RegionUnmatched, [])
              else
                (case renameBaseStep buf Old Rng Config of
                   (True, cs) \<Rightarrow> Some (RegionMismatch, cs)
                 | (False, cs) \<Rightarrow>
                     if \<not> IsFunctionLike Config \<and> LabelType Resolved \<noteq> NoLabel
                        \<and> \<not> IsNonProtocolType Config \<and> Usage Config \<noteq> Definition
                     then Some (RegionMismatch, cs)
                     else
                       (let HandleLabels =
                              (IsFunctionLike Config \<and>
                               (case Usage Config of
                                  Call \<Rightarrow> \<not> isOperatorName (base Old)
                                | Definition \<Rightarrow> True
                                | Reference \<Rightarrow> LabelType Resolved = Selector \<or> IsSubscript
                                | Unknown \<Rightarrow> LabelType Resolved \<noteq> NoLabel));
                            isCallSite =
                              (Usage Config \<noteq> Definition \<and>
                               (Usage Config \<noteq> Reference \<or> IsSubscript) \<and>
                               LabelType Resolved = CallArg)
                        in if HandleLabels then
                             (case renameLabels lexTok buf Old (LabelRanges Resolved)
                                     (FirstTrailingLabel Resolved) (LabelType Resolved)
                                     isCallSite of
                                None \<Rightarrow> None
                              | Some (True, ls) \<Rightarrow>
                                  Some (if Usage Config = Unknown then RegionUnmatched
                                        else RegionMismatch, cs @ ls)
                              | Some (False, ls) \<Rightarrow> Some (RegionKind, cs @ ls))
                           else Some (RegionKind, cs)))))"

text \<open>
  One round of the loop of \<^verbatim>\<open>syntacticRename\<close>: what \<^verbatim>\<open>EditConsumer.accept\<close> receives
  for the occurrence (\<^term>\<open>None\<close> replacements for \<^verbatim>\<open>None\<close>). The constructor of
  \<^verbatim>\<open>TextReplacementsRenamer\<close> asserts that both names have the same number of parts.
\<close>

definition renameOccurrence ::
  "lexer \<Rightarrow> (string \<Rightarrow> bool) \<Rightarrow> string \<Rightarrow> RenameLoc \<times> ResolvedLoc
     \<Rightarrow> (RegionType \<times> Replacement list option) option" where
  "renameOccurrence lexTok isOperatorName buf occ =
     (case occ of (Rename, Resolved) \<Rightarrow>
        if length (args (OldName Rename)) \<noteq> length (args (NewName Rename)) then None
        else
          (case addSyntacticRenameRanges lexTok isOperatorName buf (OldName Rename)
                  Resolved Rename of
             None \<Rightarrow> None
           | Some (Type, calls) \<Rightarrow>
               (case getReplacements buf (OldName Rename) (NewName Rename) calls of
                  None \<Rightarrow> None
                | Some rs \<Rightarrow>
                    Some (Type, if Type = RegionMismatch then None else Some rs))))"

fun renameOccurrences ::
  "lexer \<Rightarrow> (string \<Rightarrow> bool) \<Rightarrow> string \<Rightarrow> (RenameLoc \<times> ResolvedLoc) list
     \<Rightarrow> (RegionType \<times> Replacement list option) list option" where
  "renameOccurrences lexTok isOperatorName buf [] = Some []"
| "renameOccurrences lexTok isOperatorName buf (occ # occs) =
     (case renameOccurrence lexTok isOperatorName buf occ of
        None \<Rightarrow> None
      | Some a \<Rightarrow>
          (case renameOccurrences lexTok isOperatorName buf occs of
             None \<Rightarrow> None
           | Some as \<Rightarrow> Some (a # as)))"

text \<open>
  \<^verbatim>\<open>syntacticRename\<close>, given the locations that \<^verbatim>\<open>resolveRenameLocations\<close> resolved
  (the resolver is not part of this file): the returned flag and what the edit
  consumer accepted, one entry per occurrence.
\<close>

definition syntacticRename ::
  "lexer \<Rightarrow> (string \<Rightarrow> bool) \<Rightarrow> string \<Rightarrow> RenameLoc list \<Rightarrow> ResolvedLoc list
     \<Rightarrow> (bool \<times> (RegionType \<times> Replacement list option) list) option" where
  "syntacticRename lexTok isOperatorName buf RenameLocs ResolvedLocs =
     (if length ResolvedLocs \<noteq> length RenameLocs then Some (True, [])
      else map_option (\<lambda>accepted. (False, accepted))
             (renameOccurrences lexTok isOperatorName buf (zip RenameLocs ResolvedLocs)))"

section \<open>Properties stated of the renamer\<close>

text \<open>
  The ranges \<open>rs\<close> tile the span from \<open>s\<close> to \<open>e\<close>: each starts where the one before
  it ends, the first at \<open>s\<close>, the last ending at \<open>e\<close>.
\<close>

fun callRange :: "RenameCall \<Rightarrow> CharSourceRange" where
  "callRange (DoRenameBase r k) = r"
| "callRange (DoRenameLabel r k i) = r"

fun tiles :: "nat \<Rightarrow> CharSourceRange list \<Rightarrow> nat \<Rightarrow> bool" where
  "tiles s [] e = (s = e)"
| "tiles s (r # rs) e = (Start r = s \<and> tiles (getEnd r) rs e)"

definition coversExactly :: "CharSourceRange \<Rightarrow> CharSourceRange list \<Rightarrow> bool" where
  "coversExactly Rng rs = tiles (Start Rng) rs (getEnd Rng)"

definition separatorBetween :: "CharSourceRange \<Rightarrow> CharSourceRange \<Rightarrow> CharSourceRange" where
  "separatorBetween a b = mkRange (getEnd a) (Start b - getEnd a)"

text \<open>
  The positions of the first and of the last whitespace or slash of a text that has one,
  counted from the front.
\<close>

definition firstBoundary :: "string \<Rightarrow> nat" where
  "firstBoundary s = length (takeWhile (\<lambda>c. c \<notin> set boundaryChars) s)"

definition lastBoundary :: "string \<Rightarrow> nat" where
  "lastBoundary s = length s - Suc (length (takeWhile (\<lambda>c. c \<notin> set boundaryChars) (rev s)))"

text \<open>
  The two sub-spans of a parameter span. Without a whitespace or slash in the span, a
  collapsible parameter has the span as external label and the empty range at its end
  as internal name, a non-collapsible one the empty range at its start as external
  label and the span as internal name. Otherwise the external label is the part of the
  span before its first whitespace or slash, and the internal name is the part of the
  span from its last whitespace or slash on (collapsible) or after it
  (non-collapsible).
\<close>

definition paramSpans ::
  "string \<Rightarrow> CharSourceRange \<Rightarrow> bool \<Rightarrow> CharSourceRange \<Rightarrow> CharSourceRange \<Rightarrow> bool" where
  "paramSpans buf Rng IsCollapsible ext loc =
     (coversExactly Rng [ext, separatorBetween ext loc, loc]
      \<and> (if set (str buf Rng) \<inter> set boundaryChars = {}
         then (if IsCollapsible then ext = Rng \<and> loc = mkRange (getEnd Rng) 0
               else ext = mkRange (Start Rng) 0 \<and> loc = Rng)
         else ext = mkRange (Start Rng) (firstBoundary (str buf Rng))
              \<and> loc = (let k = lastBoundary (str buf Rng) + (if IsCollapsible then 0 else 1)
                       in mkRange (Start Rng + k) (ByteLength Rng - k))))"

text \<open>
  The label sub-span of a call-argument span with a colon: the text before the first
  colon, without the whitespace at its end.
\<close>

definition callArgLabel :: "string \<Rightarrow> CharSourceRange \<Rightarrow> CharSourceRange" where
  "callArgLabel buf Rng =
     mkRange (Start Rng)
       (length (rtrim (takeWhile (\<lambda>c. c \<noteq> CHR '':'') (str buf Rng))))"





text \<open>
  A sample lexer and operator test, used to run the model on examples: a token is the
  longest run of letters, digits and underscores, and no base name is an operator.
\<close>

definition isIdentChar :: "char \<Rightarrow> bool" where
  "isIdentChar c =
     (c \<in> set ''abcdefghijklmnopqrstuvwxyzABCDEFGHIJKLMNOPQRSTUVWXYZ0123456789_'')"

definition identLexer :: lexer where
  "identLexer buf n = length (takeWhile isIdentChar (drop n buf))"

definition noOperators :: "string \<Rightarrow> bool" where
  "noOperators s = False"

fun callKind :: "RenameCall \<Rightarrow> RefactoringRangeKind" where
  "callKind (DoRenameBase r k) = k"
| "callKind (DoRenameLabel r k i) = k"

fun callIndex :: "RenameCall \<Rightarrow> nat option" where
  "callIndex (DoRenameBase r k) = None"
| "callIndex (DoRenameLabel r k i) = Some i"

text \<open>
  The labels of an occurrence match the old name one by one: as many labels as the old
  name has, each accepted by \<^verbatim>\<open>labelRangeMatches\<close> for the old label at its position.
\<close>

definition strictLabelsMatch ::
  "lexer \<Rightarrow> string \<Rightarrow> DeclNameViewer \<Rightarrow> CharSourceRange list \<Rightarrow> LabelRangeType \<Rightarrow> bool" where
  "strictLabelsMatch lexTok buf Old Labels RangeType =
     list_all2 (\<lambda>Label Expected. labelRangeMatches lexTok buf Label RangeType Expected = Some True)
       Labels (args Old)"

text \<open>
  A definition, or a reference that is not matched as a call site (a selector
  reference, or a subscript reference whose labels are not call arguments), of a
  function-like name, at a valid range: \<^verbatim>\<open>addSyntacticRenameRanges\<close> handles its labels
  with \<^verbatim>\<open>isCallSite\<close> false.
\<close>

definition strictOccurrence :: "DeclNameViewer \<Rightarrow> ResolvedLoc \<Rightarrow> RenameLoc \<Rightarrow> bool" where
  "strictOccurrence Old Resolved Config =
     (IsFunctionLike Config \<and> ResolvedRange Resolved \<noteq> None \<and>
      (Usage Config = Definition \<or>
       Usage Config = Reference \<and>
         (LabelType Resolved = Selector \<or>
          base Old = ''subscript'' \<and> LabelType Resolved \<noteq> CallArg)))"

text \<open>
  An occurrence of unknown usage (in inactive code, a comment or a string) of a
  function-like name, at a valid range, with labels that are not call arguments:
  \<^verbatim>\<open>addSyntacticRenameRanges\<close> handles its labels with \<^verbatim>\<open>isCallSite\<close> false as well.
\<close>

definition unknownStrictOccurrence :: "ResolvedLoc \<Rightarrow> RenameLoc \<Rightarrow> bool" where
  "unknownStrictOccurrence Resolved Config =
     (IsFunctionLike Config \<and> ResolvedRange Resolved \<noteq> None \<and> Usage Config = Unknown
      \<and> LabelType Resolved \<noteq> NoLabel \<and> LabelType Resolved \<noteq> CallArg)"

text \<open>
  A sample buffer: a declaration whose second label differs from the old name
  \<^verbatim>\<open>foo(a:b:)\<close>, and a call that matches it.
\<close>

definition sampleSource :: string where
  "sampleSource = ''func foo(a: Int, c: Int) {}; foo(a: 1, b: 2)''"

definition sampleRename :: "NameUsage \<Rightarrow> RenameLoc" where
  "sampleRename u =
     \<lparr>Usage = u, OldName = \<lparr>base = ''foo'', args = [''a'', ''b'']\<rparr>,
      NewName = \<lparr>base = ''bar'', args = [''x'', []]\<rparr>,
      IsFunctionLike = True, IsNonProtocolType = False\<rparr>"

definition sampleDefinitionLoc :: ResolvedLoc where
  "sampleDefinitionLoc =
     \<lparr>ResolvedNodeKind = OtherNode, ResolvedRange = Some (mkRange 5 3),
      LabelRanges = [mkRange 9 1, mkRange 17 1], FirstTrailingLabel = None,
      LabelType = Param, IsActive = True, IsInSelector = False\<rparr>"

definition sampleCallLoc :: ResolvedLoc where
  "sampleCallLoc =
     \<lparr>ResolvedNodeKind = OtherNode, ResolvedRange = Some (mkRange 29 3),
      LabelRanges = [mkRange 33 3, mkRange 39 3], FirstTrailingLabel = None,
      LabelType = CallArg, IsActive = True, IsInSelector = False\<rparr>"

text \<open>The declaration of the sample buffer, seen in inactive code.\<close>

definition sampleInactiveLoc :: ResolvedLoc where
  "sampleInactiveLoc = sampleDefinitionLoc\<lparr>IsActive := False\<rparr>"

section \<open>The lenient matching in two phases\<close>

text \<open>
  A second description of \<^verbatim>\<open>renameLabelsLenient\<close>, by recursion over the old labels
  that are left instead of indices into them. It is compared with the model of the
  code below.
\<close>

text \<open>
  Walk along the old labels that are left until one passes the test: its position in the
  old name and the labels after it; \<^term>\<open>None\<close> when no label passes.
\<close>

fun skipUntil :: "(string \<Rightarrow> bool) \<Rightarrow> string list \<Rightarrow> nat \<Rightarrow> (nat \<times> string list) option" where
  "skipUntil test [] pos = None"
| "skipUntil test (l # ls) pos = (if test l then Some (pos, ls) else skipUntil test ls (Suc pos))"

text \<open>
  The trailing-closure phase: the trailing labels in reverse syntactic order against
  the old labels from the back. Both lists are given reversed; the position of an old
  label is the number of old labels in front of it.
\<close>

fun backPhase ::
  "lexer \<Rightarrow> string \<Rightarrow> CharSourceRange list \<Rightarrow> string list
     \<Rightarrow> (bool \<times> string list \<times> RenameCall list) option" where
  "backPhase lexTok buf [] oldRev = Some (False, oldRev, [])"
| "backPhase lexTok buf (Label # earlier) oldRev =
     (if ByteLength Label = 0 \<and> earlier = [] then
        Some (False, tl oldRev, [])
      else
        (case skipUntil (\<lambda>Expected.
                 if ByteLength Label = 0 then Expected = []
                 else labelRangeMatches lexTok buf Label Selector Expected = Some True)
               oldRev 0 of
           None \<Rightarrow> Some (True, [], [])
         | Some (n, oldRev') \<Rightarrow>
             (case splitAndRenameLabel buf Label Selector (length oldRev') of
                None \<Rightarrow> None
              | Some es \<Rightarrow>
                  (case backPhase lexTok buf earlier oldRev' of
                     None \<Rightarrow> None
                   | Some (b, left, es') \<Rightarrow> Some (b, left, es @ es')))))"

text \<open>
  The front phase as the claim words it: an empty label takes the next old label when
  that is empty and is skipped otherwise; a label that is not empty takes the first old
  label left that it matches, and is a mismatch when there is none.
\<close>

fun frontPhaseClaimed ::
  "lexer \<Rightarrow> string \<Rightarrow> LabelRangeType \<Rightarrow> CharSourceRange list \<Rightarrow> nat \<Rightarrow> string list
     \<Rightarrow> (bool \<times> RenameCall list) option" where
  "frontPhaseClaimed lexTok buf RangeType [] pos left = Some (False, [])"
| "frontPhaseClaimed lexTok buf RangeType (Label # later) pos left =
     (if ByteLength Label = 0 then
        (case left of
           [] # left' \<Rightarrow>
             thenCalls (splitAndRenameLabel buf Label RangeType pos)
               (frontPhaseClaimed lexTok buf RangeType later (Suc pos) left')
         | other \<Rightarrow> frontPhaseClaimed lexTok buf RangeType later pos left)
      else
        (case skipUntil (\<lambda>Expected.
                 labelRangeMatches lexTok buf Label RangeType Expected = Some True) left pos of
           None \<Rightarrow> Some (True, [])
         | Some (k, left') \<Rightarrow>
             thenCalls (splitAndRenameLabel buf Label RangeType k)
               (frontPhaseClaimed lexTok buf RangeType later (Suc k) left')))"

text \<open>
  The front phase as amended: the first label of the phase, when it is empty, takes the
  first empty old label that is left, and is a mismatch when there is none. Every later
  label is matched as the claim words it.
\<close>

fun frontPhase ::
  "lexer \<Rightarrow> string \<Rightarrow> LabelRangeType \<Rightarrow> CharSourceRange list \<Rightarrow> string list
     \<Rightarrow> (bool \<times> RenameCall list) option" where
  "frontPhase lexTok buf RangeType [] left = Some (False, [])"
| "frontPhase lexTok buf RangeType (Label # later) left =
     (if ByteLength Label = 0 then
        (case skipUntil (\<lambda>Expected. Expected = []) left 0 of
           None \<Rightarrow> Some (True, [])
         | Some (k, left') \<Rightarrow>
             thenCalls (splitAndRenameLabel buf Label RangeType k)
               (frontPhaseClaimed lexTok buf RangeType later (Suc k) left'))
      else frontPhaseClaimed lexTok buf RangeType (Label # later) 0 left)"

text \<open>The two phases one after the other, with either front phase.\<close>

definition twoPhases ::
  "(CharSourceRange list \<Rightarrow> string list \<Rightarrow> (bool \<times> RenameCall list) option)
     \<Rightarrow> lexer \<Rightarrow> string \<Rightarrow> DeclNameViewer \<Rightarrow> CharSourceRange list \<Rightarrow> nat option
     \<Rightarrow> (bool \<times> RenameCall list) option" where
  "twoPhases front lexTok buf Old Labels FirstTrailing =
     (let n = (case FirstTrailing of None \<Rightarrow> length Labels | Some k \<Rightarrow> k) in
      case backPhase lexTok buf (rev (drop n Labels)) (rev (args Old)) of
        None \<Rightarrow> None
      | Some (True, oldRev, es) \<Rightarrow> Some (True, es)
      | Some (False, oldRev, es) \<Rightarrow> thenCalls (Some es) (front (take n Labels) (rev oldRev)))"

definition lenientAsClaimed ::
  "lexer \<Rightarrow> string \<Rightarrow> DeclNameViewer \<Rightarrow> CharSourceRange list \<Rightarrow> nat option \<Rightarrow> LabelRangeType
     \<Rightarrow> (bool \<times> RenameCall list) option" where
  "lenientAsClaimed lexTok buf Old Labels FirstTrailing RangeType =
     twoPhases (\<lambda>front left. frontPhaseClaimed lexTok buf RangeType front 0 left)
       lexTok buf Old Labels FirstTrailing"

definition lenientTwoPhases ::
  "lexer \<Rightarrow> string \<Rightarrow> DeclNameViewer \<Rightarrow> CharSourceRange list \<Rightarrow> nat option \<Rightarrow> LabelRangeType
     \<Rightarrow> (bool \<times> RenameCall list) option" where
  "lenientTwoPhases lexTok buf Old Labels FirstTrailing RangeType =
     twoPhases (frontPhase lexTok buf RangeType) lexTok buf Old Labels FirstTrailing"

section \<open>The syntax tree as the async refactoring reads it\<close>

text \<open>
  Declarations are pointers in the source; here a declaration is a number and \<open>0\<close> is the
  null pointer. A source location is \<^term>\<open>None\<close> when it is invalid. The tree is built by the
  parser and the type checker, which are not part of this file: every node carries what
  the refactoring asks of it.
\<close>

type_synonym Decl = nat

definition nullDecl :: Decl where
  "nullDecl = 0"

type_synonym SourceLoc = "nat option"

text \<open>
  The pattern bound by a condition, as \<^verbatim>\<open>addBinding\<close> reads it: whether it is a
  \<^verbatim>\<open>BindingPattern\<close> and then whether that is a \<^verbatim>\<open>let\<close>, its \<^verbatim>\<open>getBoundName\<close>, and its
  \<^verbatim>\<open>getSingleVar\<close> (\<^term>\<open>nullDecl\<close> when there is none).
\<close>

record SubPattern =
  BindingIsLet :: "bool option"
  BoundName :: string
  SingleVar :: Decl

text \<open>
  An enum element: whether the declared type of its parent enum is \<^verbatim>\<open>Result\<close>, and its name.
\<close>

record EnumElementDecl =
  ParentIsResult :: bool
  ElementName :: string

datatype Pattern =
    OptionalSomePattern SubPattern
  | EnumElementPattern "EnumElementDecl option" "SubPattern option"
  | OtherPattern

text \<open>
  A reference to a declaration: the declaration, whether the type of the expression is
  \<^verbatim>\<open>Result\<close>, and the name of the declaration when it is a \<^verbatim>\<open>FuncDecl\<close>.
\<close>

record DeclRef =
  RefDecl :: Decl
  TypeIsResult :: bool
  FuncName :: "string option"

text \<open>
  Expressions. A \<^verbatim>\<open>BinaryExpr\<close> carries the base name of the operator function that
  \<^verbatim>\<open>isOperator\<close> finds for it, if any; an \<^verbatim>\<open>ImplicitConversionExpr\<close> its syntactic
  sub-expression; a \<^verbatim>\<open>DotSyntaxCallExpr\<close> its function and its base; \<open>OtherExpr\<close> stands
  for every other expression, told apart by a number.
\<close>

datatype Expr =
    NilLiteralExpr
  | DeclRefExpr DeclRef
  | AutoClosureExpr "Expr option"
  | BinaryExpr "string option" Expr Expr
  | OptionalTryExpr Expr
  | ImplicitConversionExpr Expr
  | CallExpr Expr
  | DotSyntaxCallExpr Expr Expr
  | OtherExpr nat

datatype StmtConditionElement =
    BooleanCond Expr
  | PatternCond Pattern Expr
  | AvailabilityCond

text \<open>A case label item: its pattern and whether it has a \<^verbatim>\<open>where\<close> clause.\<close>

datatype CaseLabelItem = CaseLabelItem Pattern bool

text \<open>
  Statements and nodes. \<open>IfStmt\<close>: start, condition, then and else statement.
  \<open>GuardStmt\<close>: start, condition, body. \<open>SwitchStmt\<close>: start, subject, cases, location of
  the closing brace. \<open>BraceStmt\<close>: elements, location of the closing brace, implicit.
  \<open>ReturnStmt\<close>: start, has a result, implicit. \<open>BreakStmt\<close> and \<open>OtherStmt\<close>: start,
  implicit. \<open>CaseStmt\<close>: start, location, has a fallthrough destination, is default,
  label items, and the elements, closing brace and implicit flag of its body. A
  declaration node is a \<^verbatim>\<open>VarDecl\<close> or not, and has a number.
\<close>

datatype Stmt =
    IfStmt SourceLoc "StmtConditionElement list" Stmt "Stmt option"
  | GuardStmt SourceLoc "StmtConditionElement list" Stmt
  | SwitchStmt SourceLoc Expr "CaseStmt list" SourceLoc
  | BraceStmt "ASTNode list" SourceLoc bool
  | ReturnStmt SourceLoc bool bool
  | BreakStmt SourceLoc bool
  | OtherStmt SourceLoc bool
and ASTNode =
    StmtNode Stmt
  | ExprNode Expr
  | DeclNode bool nat
and CaseStmt =
    CaseStmt SourceLoc SourceLoc bool bool "CaseLabelItem list" "ASTNode list" SourceLoc bool

fun getStartLoc :: "Stmt \<Rightarrow> SourceLoc" where
  "getStartLoc (IfStmt l c t e) = l"
| "getStartLoc (GuardStmt l c b) = l"
| "getStartLoc (SwitchStmt l s cs r) = l"
| "getStartLoc (BraceStmt ns r i) = None"
| "getStartLoc (ReturnStmt l h i) = l"
| "getStartLoc (BreakStmt l i) = l"
| "getStartLoc (OtherStmt l i) = l"

fun isExplicitReturnOrBreak :: "ASTNode \<Rightarrow> bool" where
  "isExplicitReturnOrBreak (StmtNode (ReturnStmt l h i)) = (\<not> i)"
| "isExplicitReturnOrBreak (StmtNode (BreakStmt l i)) = (\<not> i)"
| "isExplicitReturnOrBreak n = False"

section \<open>Nodes to print and classified blocks\<close>

record NodesToPrint =
  Nodes :: "ASTNode list"
  PossibleCommentLocs :: "nat list"

definition emptyNodes :: NodesToPrint where
  "emptyNodes = \<lparr>Nodes = [], PossibleCommentLocs = []\<rparr>"

fun isVarDecl :: "ASTNode \<Rightarrow> bool" where
  "isVarDecl (DeclNode isVar n) = isVar"
| "isVarDecl n = False"

definition addNode :: "ASTNode \<Rightarrow> NodesToPrint \<Rightarrow> NodesToPrint" where
  "addNode Node N = (if \<not> isVarDecl Node then N\<lparr>Nodes := Nodes N @ [Node]\<rparr> else N)"

definition addPossibleCommentLoc :: "SourceLoc \<Rightarrow> NodesToPrint \<Rightarrow> NodesToPrint" where
  "addPossibleCommentLoc Loc N =
     (case Loc of
        None \<Rightarrow> N
      | Some l \<Rightarrow> N\<lparr>PossibleCommentLocs := PossibleCommentLocs N @ [l]\<rparr>)"

text \<open>\<^verbatim>\<open>addNodesInBraceStmt\<close>, given the elements, closing brace and implicit flag.\<close>

definition addNodesInBraceStmt ::
  "ASTNode list \<Rightarrow> SourceLoc \<Rightarrow> bool \<Rightarrow> NodesToPrint \<Rightarrow> NodesToPrint" where
  "addNodesInBraceStmt Elements RBraceLoc Implicit N =
     (let N' = fold addNode Elements N in
      if \<not> Implicit then addPossibleCommentLoc RBraceLoc N' else N')"

definition addNodes :: "NodesToPrint \<Rightarrow> NodesToPrint \<Rightarrow> NodesToPrint" where
  "addNodes OtherNodes N =
     \<lparr>Nodes = Nodes N @ Nodes OtherNodes,
      PossibleCommentLocs = PossibleCommentLocs N @ PossibleCommentLocs OtherNodes\<rparr>"

definition hasTrailingReturnOrBreak :: "NodesToPrint \<Rightarrow> bool" where
  "hasTrailingReturnOrBreak N =
     (if Nodes N = [] then False else isExplicitReturnOrBreak (last (Nodes N)))"

definition dropTrailingReturnOrBreakIfPossible :: "NodesToPrint \<Rightarrow> NodesToPrint" where
  "dropTrailingReturnOrBreakIfPossible N =
     (if \<not> hasTrailingReturnOrBreak N then N
      else case last (Nodes N) of
             StmtNode (ReturnStmt l hasResult i) \<Rightarrow>
               if hasResult then N
               else addPossibleCommentLoc l (N\<lparr>Nodes := butlast (Nodes N)\<rparr>)
           | StmtNode s \<Rightarrow> addPossibleCommentLoc (getStartLoc s) (N\<lparr>Nodes := butlast (Nodes N)\<rparr>)
           | n \<Rightarrow> N)"

definition inBraceStmt :: "ASTNode list \<Rightarrow> SourceLoc \<Rightarrow> bool \<Rightarrow> NodesToPrint" where
  "inBraceStmt Elements RBraceLoc Implicit =
     addNodesInBraceStmt Elements RBraceLoc Implicit emptyNodes"

datatype ConditionType = INVALID | NIL | NOT_NIL

record CallbackCondition =
  CondType :: ConditionType
  Subject :: Decl
  BindPattern :: "SubPattern option"
  ErrorCase :: bool

definition noCondition :: CallbackCondition where
  "noCondition = \<lparr>CondType = INVALID, Subject = nullDecl, BindPattern = None, ErrorCase = False\<rparr>"

definition isValidCond :: "CallbackCondition \<Rightarrow> bool" where
  "isValidCond CC = (CondType CC \<noteq> INVALID)"

text \<open>
  \<^verbatim>\<open>ClassifiedBlock\<close>. The two \<^verbatim>\<open>DenseMap\<close>s are association lists with distinct keys, in
  insertion order.
\<close>

record ClassifiedBlock =
  BlockNodes :: NodesToPrint
  BoundNames :: "(Decl \<times> string) list"
  Aliases :: "(Decl \<times> Decl) list"
  AllLet :: bool

definition emptyBlock :: ClassifiedBlock where
  "emptyBlock = \<lparr>BlockNodes = emptyNodes, BoundNames = [], Aliases = [], AllLet = True\<rparr>"

text \<open>\<^verbatim>\<open>DenseMap::try_emplace\<close>: the new map, and whether the key was inserted.\<close>

definition try_emplace :: "'k \<Rightarrow> 'v \<Rightarrow> ('k \<times> 'v) list \<Rightarrow> ('k \<times> 'v) list \<times> bool" where
  "try_emplace k v m = (if k \<in> fst ` set m then (m, False) else (m @ [(k, v)], True))"

definition boundName :: "ClassifiedBlock \<Rightarrow> Decl \<Rightarrow> string" where
  "boundName B D = (case map_of (BoundNames B) D of None \<Rightarrow> [] | Some n \<Rightarrow> n)"

text \<open>
  \<^verbatim>\<open>addBinding\<close>; \<^term>\<open>None\<close> when the assertion that the variable was not seen before
  fails. It reports no diagnostic.
\<close>

definition addBinding :: "CallbackCondition \<Rightarrow> ClassifiedBlock \<Rightarrow> ClassifiedBlock option" where
  "addBinding FromCondition B =
     (case BindPattern FromCondition of
        None \<Rightarrow> Some B
      | Some P \<Rightarrow>
          (let B1 = (if BindingIsLet P = Some False then B\<lparr>AllLet := False\<rparr> else B) in
           if BoundName P = [] \<or> SingleVar P = nullDecl then Some B1
           else case try_emplace (SingleVar P) (Subject FromCondition) (Aliases B1) of
                  (A, False) \<Rightarrow> None
                | (A, True) \<Rightarrow>
                    Some (B1\<lparr>Aliases := A,
                             BoundNames := fst (try_emplace (Subject FromCondition)
                                                  (BoundName P) (BoundNames B1))\<rparr>)))"

text \<open>
  \<^verbatim>\<open>addAllBindings\<close>. As \<^verbatim>\<open>addBinding\<close> reports no diagnostic, the check of
  \<^verbatim>\<open>hadAnyError\<close> inside the loop sees the flag as it was on entry: when it is set the
  loop stops after the first entry.
\<close>

fun addAllBindings ::
  "bool \<Rightarrow> (Decl \<times> CallbackCondition) list \<Rightarrow> ClassifiedBlock \<Rightarrow> ClassifiedBlock option" where
  "addAllBindings hadAnyError [] B = Some B"
| "addAllBindings hadAnyError (Entry # rest) B =
     (case addBinding (snd Entry) B of
        None \<Rightarrow> None
      | Some B' \<Rightarrow> if hadAnyError then Some B' else addAllBindings hadAnyError rest B')"

record ClassifiedBlocks =
  SuccessBlock :: ClassifiedBlock
  ErrorBlock :: ClassifiedBlock

text \<open>A pointer to one of the two blocks.\<close>

datatype BlockRef = SuccessRef | ErrorRef

fun getBlock :: "BlockRef \<Rightarrow> ClassifiedBlocks \<Rightarrow> ClassifiedBlock" where
  "getBlock SuccessRef Bs = SuccessBlock Bs"
| "getBlock ErrorRef Bs = ErrorBlock Bs"

fun setBlock :: "BlockRef \<Rightarrow> ClassifiedBlock \<Rightarrow> ClassifiedBlocks \<Rightarrow> ClassifiedBlocks" where
  "setBlock SuccessRef B Bs = Bs\<lparr>SuccessBlock := B\<rparr>"
| "setBlock ErrorRef B Bs = Bs\<lparr>ErrorBlock := B\<rparr>"

definition onNodes :: "(NodesToPrint \<Rightarrow> NodesToPrint) \<Rightarrow> ClassifiedBlock \<Rightarrow> ClassifiedBlock" where
  "onNodes f B = B\<lparr>BlockNodes := f (BlockNodes B)\<rparr>"

section \<open>Callback conditions\<close>

text \<open>
  The constructor from a comparison with \<^verbatim>\<open>nil\<close>: the loop over the two operands, then
  the operator.
\<close>

fun nilOperand :: "Expr \<Rightarrow> bool \<times> Decl \<Rightarrow> bool \<times> Decl" where
  "nilOperand NilLiteralExpr (FoundNil, Subj) = (True, Subj)"
| "nilOperand (DeclRefExpr DRE) (FoundNil, Subj) = (FoundNil, RefDecl DRE)"
| "nilOperand e (FoundNil, Subj) = (FoundNil, Subj)"

definition conditionFromBinary :: "Expr \<Rightarrow> Expr \<Rightarrow> string \<Rightarrow> CallbackCondition" where
  "conditionFromBinary LHS RHS Operator =
     (case nilOperand RHS (nilOperand LHS (False, nullDecl)) of
        (FoundNil, Subj) \<Rightarrow>
          noCondition\<lparr>Subject := Subj,
                      CondType := (if Subj \<noteq> nullDecl \<and> FoundNil then
                                     (if Operator = ''=='' then NIL
                                      else if Operator = ''!='' then NOT_NIL
                                      else INVALID)
                                   else INVALID)\<rparr>)"

definition initFromEnumPattern ::
  "Decl \<Rightarrow> EnumElementDecl option \<Rightarrow> SubPattern option \<Rightarrow> CallbackCondition" where
  "initFromEnumPattern D ElementDecl SubPat =
     (case ElementDecl of
        None \<Rightarrow> noCondition
      | Some EED \<Rightarrow>
          if \<not> ParentIsResult EED then noCondition
          else \<lparr>CondType = NOT_NIL, Subject = D, BindPattern = SubPat,
                ErrorCase = (ElementName EED = ''failure'')\<rparr>)"

text \<open>
  \<^verbatim>\<open>initFromOptionalTry\<close>. The base of the \<^verbatim>\<open>DotSyntaxCallExpr\<close> is cast to a
  \<^verbatim>\<open>DeclRefExpr\<close> and used without a null check: for another base the result is
  \<^term>\<open>None\<close>.
\<close>

definition initFromOptionalTry :: "SubPattern \<Rightarrow> Expr \<Rightarrow> CallbackCondition option" where
  "initFromOptionalTry P SubExpr =
     (case SubExpr of
        ImplicitConversionExpr (CallExpr (DotSyntaxCallExpr Fn Base)) \<Rightarrow>
          (case Base of
             DeclRefExpr BaseDRE \<Rightarrow>
               if \<not> TypeIsResult BaseDRE then Some noCondition
               else (case Fn of
                       DeclRefExpr FnDRE \<Rightarrow>
                         if FuncName FnDRE = Some ''get''
                         then Some \<lparr>CondType = NOT_NIL, Subject = RefDecl BaseDRE,
                                    BindPattern = Some P, ErrorCase = False\<rparr>
                         else Some noCondition
                     | e \<Rightarrow> Some noCondition)
           | e \<Rightarrow> None)
      | e \<Rightarrow> Some noCondition)"

definition conditionFromPattern :: "Pattern \<Rightarrow> Expr \<Rightarrow> CallbackCondition option" where
  "conditionFromPattern P Init =
     (case Init of
        DeclRefExpr DRE \<Rightarrow>
          (case P of
             OptionalSomePattern Sub \<Rightarrow>
               Some \<lparr>CondType = NOT_NIL, Subject = RefDecl DRE, BindPattern = Some Sub,
                     ErrorCase = False\<rparr>
           | EnumElementPattern ElementDecl SubPat \<Rightarrow>
               Some (initFromEnumPattern (RefDecl DRE) ElementDecl SubPat)
           | OtherPattern \<Rightarrow> Some noCondition)
      | OptionalTryExpr SubExpr \<Rightarrow>
          (case P of
             OptionalSomePattern Sub \<Rightarrow> initFromOptionalTry Sub SubExpr
           | p \<Rightarrow> Some noCondition)
      | e \<Rightarrow> Some noCondition)"

definition conditionFromCase :: "Decl \<Rightarrow> CaseLabelItem \<Rightarrow> CallbackCondition" where
  "conditionFromCase Subj CaseItem =
     (case CaseItem of
        CaseLabelItem (EnumElementPattern ElementDecl SubPat) hasWhere \<Rightarrow>
          initFromEnumPattern Subj ElementDecl SubPat
      | CaseLabelItem p hasWhere \<Rightarrow> noCondition)"

text \<open>\<^verbatim>\<open>addCond\<close>: the map \<^verbatim>\<open>AddTo\<close> and the flag \<^verbatim>\<open>Handled\<close> after the call.\<close>

definition addCond ::
  "CallbackCondition \<Rightarrow> Decl list \<Rightarrow> (Decl \<times> CallbackCondition) list \<times> bool
     \<Rightarrow> (Decl \<times> CallbackCondition) list \<times> bool" where
  "addCond CC Decls st =
     (case st of (AddTo, Handled) \<Rightarrow>
        if \<not> isValidCond CC \<or> Subject CC \<notin> set Decls then (AddTo, False)
        else case try_emplace (Subject CC) CC AddTo of
               (AddTo', inserted) \<Rightarrow> (AddTo', Handled \<and> inserted))"

text \<open>
  The inner \<^verbatim>\<open>while\<close> loop of \<^verbatim>\<open>CallbackCondition::all\<close> over the stack \<^verbatim>\<open>Exprs\<close>; the
  head of the list is the back of the vector.
\<close>

function allExprs ::
  "Expr list \<Rightarrow> Decl list \<Rightarrow> (Decl \<times> CallbackCondition) list \<times> bool
     \<Rightarrow> (Decl \<times> CallbackCondition) list \<times> bool" where
  "allExprs [] Decls st = st"
| "allExprs (Next # Exprs) Decls st =
     (case (case Next of AutoClosureExpr body \<Rightarrow> body | e \<Rightarrow> Some e) of
        Some (BinaryExpr (Some Operator) LHS RHS) \<Rightarrow>
          if Operator = ''&&'' then allExprs (RHS # LHS # Exprs) Decls st
          else allExprs Exprs Decls (addCond (conditionFromBinary LHS RHS Operator) Decls st)
      | other \<Rightarrow> allExprs Exprs Decls (fst st, False))"
  by pat_completeness auto
termination
proof (relation "measure (\<lambda>(Exprs, Decls, st). size_list (\<lambda>e. 2 * size e) Exprs)")
  show "wf (measure (\<lambda>(Exprs, Decls, st). size_list (\<lambda>e. 2 * size e) Exprs))" by simp
next
  fix Next Exprs Decls st x2 x41 x42 x43 x2a
  assume "(case Next of AutoClosureExpr body \<Rightarrow> body | e \<Rightarrow> Some e) = Some x2"
    and "x2 = BinaryExpr x41 x42 x43"
  then have "size x42 + size x43 + 1 \<le> size Next"
    by (cases Next) (auto split: option.splits)
  then show "((x43 # x42 # Exprs, Decls, st), Next # Exprs, Decls, st)
       \<in> measure (\<lambda>(Exprs, Decls, st). size_list (\<lambda>e. 2 * size e) Exprs)"
    by simp
qed auto

fun allElements ::
  "StmtConditionElement list \<Rightarrow> Decl list \<Rightarrow> (Decl \<times> CallbackCondition) list \<times> bool
     \<Rightarrow> ((Decl \<times> CallbackCondition) list \<times> bool) option" where
  "allElements [] Decls st = Some st"
| "allElements (BooleanCond BoolExpr # rest) Decls st =
     allElements rest Decls (allExprs [BoolExpr] Decls st)"
| "allElements (PatternCond P Init # rest) Decls st =
     (case conditionFromPattern P Init of
        None \<Rightarrow> None
      | Some CC \<Rightarrow> allElements rest Decls (addCond CC Decls st))"
| "allElements (AvailabilityCond # rest) Decls st = allElements rest Decls st"

text \<open>
  \<^verbatim>\<open>CallbackCondition::all\<close>: the conditions added to the (empty) map, and the returned
  flag.
\<close>

definition allConditions ::
  "StmtConditionElement list \<Rightarrow> Decl list \<Rightarrow> ((Decl \<times> CallbackCondition) list \<times> bool) option" where
  "allConditions Cond Decls =
     (case allElements Cond Decls ([], True) of
        None \<Rightarrow> None
      | Some (AddTo, Handled) \<Rightarrow> Some (AddTo, Handled \<and> AddTo \<noteq> []))"

definition lookupCond :: "(Decl \<times> CallbackCondition) list \<Rightarrow> Decl \<Rightarrow> CallbackCondition" where
  "lookupCond m D = (case map_of m D of None \<Rightarrow> noCondition | Some CC \<Rightarrow> CC)"

section \<open>The callback classifier\<close>

datatype Diag =
    unknown_callback_conditions
  | mixed_callback_conditions
  | callback_with_fallthrough
  | callback_with_default
  | callback_multiple_case_items
  | callback_where_case_item
  | mismatched_callback_args
  | missing_callback_arg

text \<open>
  The diagnostic engine: what was diagnosed, and the flag that \<^verbatim>\<open>hadAnyError\<close> reads and
  \<^verbatim>\<open>resetHadAnyError\<close> clears. Every diagnostic of this file is an error.
\<close>

record DiagnosticEngine =
  Diagnosed :: "(SourceLoc \<times> Diag) list"
  HadAnyError :: bool

definition diagnose :: "SourceLoc \<Rightarrow> Diag \<Rightarrow> DiagnosticEngine \<Rightarrow> DiagnosticEngine" where
  "diagnose Loc d DE = \<lparr>Diagnosed = Diagnosed DE @ [(Loc, d)], HadAnyError = True\<rparr>"

record CallbackClassifier =
  Blocks :: ClassifiedBlocks
  HandledSwitches :: "Stmt list"
  DiagEngine :: DiagnosticEngine
  CurrentBlock :: BlockRef
  UnwrapParams :: "Decl list"
  ErrParam :: Decl
  IsResultParam :: bool

text \<open>Apply \<open>f\<close> to the block that \<open>r\<close> points at.\<close>

definition inBlock ::
  "BlockRef \<Rightarrow> (ClassifiedBlock \<Rightarrow> ClassifiedBlock) \<Rightarrow> CallbackClassifier \<Rightarrow> CallbackClassifier" where
  "inBlock r f C = C\<lparr>Blocks := setBlock r (f (getBlock r (Blocks C))) (Blocks C)\<rparr>"

definition diagnoseIn :: "SourceLoc \<Rightarrow> Diag \<Rightarrow> CallbackClassifier \<Rightarrow> CallbackClassifier" where
  "diagnoseIn Loc d C = C\<lparr>DiagEngine := diagnose Loc d (DiagEngine C)\<rparr>"

definition setNodes ::
  "BlockRef \<Rightarrow> BlockRef \<Rightarrow> NodesToPrint \<Rightarrow> CallbackClassifier \<Rightarrow> CallbackClassifier" where
  "setNodes Block OtherBlock N C =
     (if hasTrailingReturnOrBreak N then
        inBlock Block (onNodes (addNodes (dropTrailingReturnOrBreakIfPossible N)))
          (C\<lparr>CurrentBlock := OtherBlock\<rparr>)
      else inBlock Block (onNodes (addNodes N)) C)"

fun singleSwitchSubject :: "Expr \<Rightarrow> Decl" where
  "singleSwitchSubject (DeclRefExpr DRE) = RefDecl DRE"
| "singleSwitchSubject e = nullDecl"

text \<open>
  The loop of \<^verbatim>\<open>classifySwitch\<close> over the cases: the classifier after the loop, and
  whether the loop ran to its end (\<^term>\<open>False\<close> when it returned early).
\<close>

fun classifyCases ::
  "CaseStmt list \<Rightarrow> SourceLoc \<Rightarrow> CallbackClassifier \<Rightarrow> (CallbackClassifier \<times> bool) option" where
  "classifyCases [] SwitchRBrace C = Some (C, True)"
| "classifyCases (CaseStmt StartLoc Loc hasFallthroughDest isDefault Items
                    BodyElements BodyRBrace BodyImplicit # rest) SwitchRBrace C =
     (if hasFallthroughDest then Some (diagnoseIn Loc callback_with_fallthrough C, False)
      else if isDefault then Some (diagnoseIn Loc callback_with_default C, False)
      else if length Items > 1 then Some (diagnoseIn Loc callback_multiple_case_items C, False)
      else case at Items 0 of
             None \<Rightarrow> None
           | Some (CaseLabelItem P hasWhere) \<Rightarrow>
               if hasWhere then Some (diagnoseIn Loc callback_where_case_item C, False)
               else
                 (let CC = conditionFromCase (ErrParam C) (CaseLabelItem P hasWhere);
                      Block = (if ErrorCase CC then ErrorRef else SuccessRef);
                      OtherBlock = (if ErrorCase CC then SuccessRef else ErrorRef);
                      C1 = inBlock (CurrentBlock C) (onNodes (addPossibleCommentLoc StartLoc)) C;
                      C2 = (if rest = []
                            then inBlock Block (onNodes (addPossibleCommentLoc SwitchRBrace)) C1
                            else C1);
                      C3 = setNodes Block OtherBlock
                             (inBraceStmt BodyElements BodyRBrace BodyImplicit) C2
                  in case addBinding CC (getBlock Block (Blocks C3)) of
                       None \<Rightarrow> None
                     | Some B \<Rightarrow>
                         (let C4 = C3\<lparr>Blocks := setBlock Block B (Blocks C3)\<rparr> in
                          if HadAnyError (DiagEngine C4) then Some (C4, False)
                          else classifyCases rest SwitchRBrace C4)))"

fun classifySwitch :: "Stmt \<Rightarrow> CallbackClassifier \<Rightarrow> CallbackClassifier option" where
  "classifySwitch (SwitchStmt StartLoc SubjectExpr Cases RBraceLoc) C =
     (if \<not> IsResultParam C \<or> singleSwitchSubject SubjectExpr \<noteq> ErrParam C then
        Some (inBlock (CurrentBlock C)
                (onNodes (addNode (StmtNode (SwitchStmt StartLoc SubjectExpr Cases RBraceLoc)))) C)
      else
        (case classifyCases Cases RBraceLoc
                (inBlock (CurrentBlock C) (onNodes (addPossibleCommentLoc StartLoc)) C) of
           None \<Rightarrow> None
         | Some (C', finished) \<Rightarrow>
             Some (if finished
                   then C'\<lparr>HandledSwitches :=
                             List.insert (SwitchStmt StartLoc SubjectExpr Cases RBraceLoc)
                               (HandledSwitches C')\<rparr>
                   else C')))"
| "classifySwitch s C = None"

text \<open>
  The loop of \<^verbatim>\<open>classifyConditional\<close> that looks for one condition type among the
  entries it counts; \<^term>\<open>None\<close> when two of them differ.
\<close>

fun commonCondType ::
  "bool \<Rightarrow> Decl \<Rightarrow> (Decl \<times> CallbackCondition) list \<Rightarrow> ConditionType \<Rightarrow> ConditionType option" where
  "commonCondType isResult Err [] T = Some T"
| "commonCondType isResult Err (Entry # rest) T =
     (if isResult \<or> Subject (snd Entry) \<noteq> Err then
        (if T = INVALID then commonCondType isResult Err rest (CondType (snd Entry))
         else if T \<noteq> CondType (snd Entry) then None
         else commonCondType isResult Err rest T)
      else commonCondType isResult Err rest T)"

text \<open>
  The branch of \<^verbatim>\<open>classifyConditional\<close> for conditions that were not all handled.
\<close>

definition classifyUnhandled ::
  "Stmt \<Rightarrow> (Decl \<times> CallbackCondition) list \<Rightarrow> Stmt option \<Rightarrow> CallbackClassifier
     \<Rightarrow> CallbackClassifier" where
  "classifyUnhandled Statement CallbackConditions ElseStmt C =
     (let ErrCondition = lookupCond CallbackConditions (ErrParam C) in
      if CallbackConditions = [] then
        inBlock (CurrentBlock C) (onNodes (addNode (StmtNode Statement))) C
      else if ElseStmt \<noteq> None then
        diagnoseIn (getStartLoc Statement) unknown_callback_conditions C
      else if isValidCond ErrCondition \<and> CondType ErrCondition = NOT_NIL then
        inBlock ErrorRef (onNodes (addNode (StmtNode Statement))) C
      else if list_ex (\<lambda>Entry. CondType (snd Entry) = NIL) CallbackConditions then
        inBlock ErrorRef (onNodes (addNode (StmtNode Statement))) C
      else inBlock SuccessRef (onNodes (addNode (StmtNode Statement))) C)"

text \<open>
  Which blocks the then and the else branch of a fully handled condition go to;
  \<^term>\<open>None\<close> when the conditions are mixed.
\<close>

definition chooseBlocks ::
  "(Decl \<times> CallbackCondition) list \<Rightarrow> CallbackClassifier \<Rightarrow> (BlockRef \<times> BlockRef) option" where
  "chooseBlocks CallbackConditions C =
     (let ErrCondition = lookupCond CallbackConditions (ErrParam C) in
      if isValidCond ErrCondition \<and> (\<not> IsResultParam C \<or> ErrorCase ErrCondition)
         \<and> CondType ErrCondition = NOT_NIL
      then Some (ErrorRef, SuccessRef)
      else case commonCondType (IsResultParam C) (ErrParam C) CallbackConditions INVALID of
             None \<Rightarrow> None
           | Some T \<Rightarrow> Some (if T = NIL then (ErrorRef, SuccessRef) else (SuccessRef, ErrorRef)))"

function classifyNodes ::
    "ASTNode list \<Rightarrow> SourceLoc \<Rightarrow> CallbackClassifier \<Rightarrow> CallbackClassifier option"
  and classifyNode :: "ASTNode \<Rightarrow> CallbackClassifier \<Rightarrow> CallbackClassifier option"
  and classifyConditional ::
    "Stmt \<Rightarrow> StmtConditionElement list \<Rightarrow> NodesToPrint \<Rightarrow> Stmt option \<Rightarrow> CallbackClassifier
       \<Rightarrow> CallbackClassifier option"
where
  "classifyNodes [] endCommentLoc C =
     Some (inBlock (CurrentBlock C) (onNodes (addPossibleCommentLoc endCommentLoc)) C)"
| "classifyNodes (I # rest) endCommentLoc C =
     (case classifyNode I C of
        None \<Rightarrow> None
      | Some C' \<Rightarrow>
          if HadAnyError (DiagEngine C') then Some C'
          else classifyNodes rest endCommentLoc C')"
| "classifyNode I C =
     (case I of
        StmtNode (IfStmt l Cond ThenStmt ElseStmt) \<Rightarrow>
          classifyConditional (IfStmt l Cond ThenStmt ElseStmt) Cond
            (case ThenStmt of
               BraceStmt Elements RBraceLoc Implicit \<Rightarrow> inBraceStmt Elements RBraceLoc Implicit
             | s \<Rightarrow> \<lparr>Nodes = [StmtNode s], PossibleCommentLocs = []\<rparr>)
            ElseStmt C
      | StmtNode (GuardStmt l Cond Body) \<Rightarrow>
          classifyConditional (GuardStmt l Cond Body) Cond emptyNodes (Some Body) C
      | StmtNode (SwitchStmt l Subj Cases r) \<Rightarrow> classifySwitch (SwitchStmt l Subj Cases r) C
      | n \<Rightarrow> Some (inBlock (CurrentBlock C) (onNodes (addNode I)) C))"
| "classifyConditional Statement Condition ThenNodesToPrint ElseStmt C =
     (case allConditions Condition (UnwrapParams C) of
        None \<Rightarrow> None
      | Some (CallbackConditions, Handled) \<Rightarrow>
          if \<not> Handled then Some (classifyUnhandled Statement CallbackConditions ElseStmt C)
          else
            (case chooseBlocks CallbackConditions C of
               None \<Rightarrow>
                 Some (if ElseStmt \<noteq> None
                       then diagnoseIn (getStartLoc Statement) mixed_callback_conditions C
                       else inBlock (CurrentBlock C) (onNodes (addNode (StmtNode Statement))) C)
             | Some (ThenBlock, ElseBlock) \<Rightarrow>
                 (let C1 = inBlock (CurrentBlock C)
                             (onNodes (addPossibleCommentLoc (getStartLoc Statement))) C
                  in case addAllBindings (HadAnyError (DiagEngine C1)) CallbackConditions
                            (getBlock ThenBlock (Blocks C1)) of
                       None \<Rightarrow> None
                     | Some B \<Rightarrow>
                         (let C2 = C1\<lparr>Blocks := setBlock ThenBlock B (Blocks C1)\<rparr> in
                          if HadAnyError (DiagEngine C2) then Some C2
                          else
                            (let C3 = setNodes ThenBlock ElseBlock ThenNodesToPrint C2 in
                             case ElseStmt of
                               None \<Rightarrow> Some C3
                             | Some (BraceStmt Elements RBraceLoc Implicit) \<Rightarrow>
                                 Some (setNodes ElseBlock ThenBlock
                                         (inBraceStmt Elements RBraceLoc Implicit) C3)
                             | Some E \<Rightarrow> classifyNodes [StmtNode E] None C3)))))"
  by pat_completeness auto
termination
  by (relation "measure (\<lambda>x. case x of
            Inl (ns, l, C) \<Rightarrow> size_list (\<lambda>n. 3 * size n + 2) ns
          | Inr (Inl (n, C)) \<Rightarrow> 3 * size n + 2
          | Inr (Inr (s, c, t, e, C)) \<Rightarrow> 3 * size_option size e + 4)")
     simp_all


section \<open>Unique names\<close>

text \<open>
  An \<^verbatim>\<open>Identifier\<close> is its string; the empty identifier is the empty string.
  \<^verbatim>\<open>std::to_string\<close> of the counter is its decimal numeral.
\<close>

type_synonym Identifier = string

definition digitChar :: "nat \<Rightarrow> char" where
  "digitChar d = char_of (48 + d)"

fun to_string :: "nat \<Rightarrow> string" where
  "to_string n = (if n < 10 then [digitChar n] else to_string (n div 10) @ [digitChar (n mod 10)])"

declare to_string.simps [simp del]

text \<open>
  The part of the converter that naming reads and writes: \<^verbatim>\<open>Names\<close>, and
  \<^verbatim>\<open>ScopedNames\<close>, whose last element is the current scope. A \<^verbatim>\<open>DenseSet\<close> of identifiers
  is a list without repetition.
\<close>

record NameState =
  Names :: "(Decl \<times> Identifier) list"
  ScopedNames :: "Identifier list list"

text \<open>
  The numeral can be read back, so different counters give different numerals. This
  is what makes the loop of \<^verbatim>\<open>createUniqueName\<close> end.
\<close>

definition parseNat :: "string \<Rightarrow> nat" where
  "parseNat s = foldl (\<lambda>a c. 10 * a + (of_char c - 48)) 0 s"

lemma parseNat_to_string: "parseNat (to_string n) = n"
proof (induction n rule: to_string.induct)
  case (1 n)
  show ?case
  proof (cases "n < 10")
    case True
    then have "to_string n = [digitChar n]" by (simp add: to_string.simps)
    moreover have "of_char (digitChar n) = 48 + n" using True by (simp add: digitChar_def)
    ultimately show ?thesis by (simp add: parseNat_def)
  next
    case False
    then have ts: "to_string n = to_string (n div 10) @ [digitChar (n mod 10)]"
      by (subst to_string.simps) simp
    have d: "of_char (digitChar (n mod 10)) = 48 + n mod 10" by (simp add: digitChar_def)
    have "parseNat (to_string (n div 10)) = n div 10" using 1 False by simp
    then show ?thesis using ts d by (simp add: parseNat_def)
  qed
qed

lemma to_string_inj: "to_string a = to_string b \<Longrightarrow> a = b"
  by (metis parseNat_to_string)

lemma suffixed_inj: "inj (\<lambda>j. Name @ to_string j)"
  by (auto simp: inj_def dest: to_string_inj)

lemma finite_suffixes: "finite {j. k \<le> j \<and> Name @ to_string j \<in> set CurrentNames}"
proof -
  have "finite ((\<lambda>j. Name @ to_string j) -` set CurrentNames)"
    by (rule finite_vimageI[OF _ suffixed_inj]) simp
  then show ?thesis by (rule rev_finite_subset) auto
qed

text \<open>
  The \<^verbatim>\<open>do\<close>-\<^verbatim>\<open>while\<close> loop of \<^verbatim>\<open>createUniqueName\<close>, entered with the counter
  \<^verbatim>\<open>UniqueId\<close>. The counter is an \<^verbatim>\<open>unsigned\<close>; it is a natural number here, and since
  the loop stops at the first free suffix it stays below the number of names in the scope
  plus two.
\<close>

function uniqueNameFrom :: "Identifier list \<Rightarrow> string \<Rightarrow> nat \<Rightarrow> Identifier" where
  "uniqueNameFrom CurrentNames Name UniqueId =
     (if Name @ to_string UniqueId \<in> set CurrentNames
      then uniqueNameFrom CurrentNames Name (UniqueId + 1)
      else Name @ to_string UniqueId)"
  by pat_completeness auto
termination
proof (relation "measure (\<lambda>(CurrentNames, Name, k).
          card {j. k \<le> j \<and> Name @ to_string j \<in> set CurrentNames})")
  show "wf (measure (\<lambda>(CurrentNames, Name, k).
          card {j. k \<le> j \<and> Name @ to_string j \<in> set CurrentNames}))" by simp
next
  fix CurrentNames :: "Identifier list" and Name :: string and UniqueId :: nat
  assume a: "Name @ to_string UniqueId \<in> set CurrentNames"
  let ?A = "{j. UniqueId + 1 \<le> j \<and> Name @ to_string j \<in> set CurrentNames}"
  let ?B = "{j. UniqueId \<le> j \<and> Name @ to_string j \<in> set CurrentNames}"
  have "?A \<subseteq> ?B" by auto
  moreover have "UniqueId \<in> ?B" using a by simp
  moreover have "UniqueId \<notin> ?A" by simp
  ultimately have "?A \<subset> ?B" by blast
  then have "card ?A < card ?B"
    by (rule psubset_card_mono[OF finite_suffixes])
  then show "((CurrentNames, Name, UniqueId + 1), CurrentNames, Name, UniqueId)
       \<in> measure (\<lambda>(CurrentNames, Name, k).
            card {j. k \<le> j \<and> Name @ to_string j \<in> set CurrentNames})"
    by simp
qed

declare uniqueNameFrom.simps [simp del]

text \<open>
  \<^verbatim>\<open>createUniqueName\<close>; \<^term>\<open>None\<close> when there is no scope, where \<^verbatim>\<open>ScopedNames.back()\<close>
  is undefined.
\<close>

definition createUniqueName :: "NameState \<Rightarrow> string \<Rightarrow> Identifier option" where
  "createUniqueName S Name =
     (if ScopedNames S = [] then None
      else let CurrentNames = last (ScopedNames S)
           in Some (if Name \<in> set CurrentNames then uniqueNameFrom CurrentNames Name 1
                    else Name))"

text \<open>Insert an identifier into the current scope.\<close>

definition insertScoped :: "Identifier \<Rightarrow> Identifier list list \<Rightarrow> Identifier list list" where
  "insertScoped Ident Scopes = butlast Scopes @ [List.insert Ident (last Scopes)]"

text \<open>
  \<^verbatim>\<open>assignUniqueName\<close>, with \<^verbatim>\<open>getDeclName\<close> as a parameter: the name of a declaration,
  empty when it has none.
\<close>

definition assignUniqueName ::
  "(Decl \<Rightarrow> Identifier) \<Rightarrow> Decl \<Rightarrow> string \<Rightarrow> NameState \<Rightarrow> (Identifier \<times> NameState) option" where
  "assignUniqueName getDeclName D BoundName0 S =
     (let BoundName = (if BoundName0 = [] then getDeclName D else BoundName0) in
      if BoundName = [] then Some ([], S)
      else case createUniqueName S
                  (if hd BoundName = CHR ''$'' then ''val'' @ tl BoundName else BoundName) of
             None \<Rightarrow> None
           | Some Ident \<Rightarrow>
               Some (Ident, \<lparr>Names = fst (try_emplace D Ident (Names S)),
                             ScopedNames = insertScoped Ident (ScopedNames S)\<rparr>))"

text \<open>The first loop of \<^verbatim>\<open>prepareNames\<close>, which also returns the identifiers it made.\<close>

fun prepareParamNames ::
  "(Decl \<Rightarrow> Identifier) \<Rightarrow> ClassifiedBlock \<Rightarrow> bool \<Rightarrow> Decl list \<Rightarrow> NameState
     \<Rightarrow> (Identifier list \<times> NameState) option" where
  "prepareParamNames getDeclName Block AddIfMissing [] S = Some ([], S)"
| "prepareParamNames getDeclName Block AddIfMissing (PD # rest) S =
     (if boundName Block PD \<noteq> [] \<or> AddIfMissing then
        (case assignUniqueName getDeclName PD (boundName Block PD) S of
           None \<Rightarrow> None
         | Some (Ident, S') \<Rightarrow>
             (case prepareParamNames getDeclName Block AddIfMissing rest S' of
                None \<Rightarrow> None
              | Some (Idents, S'') \<Rightarrow> Some (Ident # Idents, S'')))
      else prepareParamNames getDeclName Block AddIfMissing rest S)"




text \<open>\<^verbatim>\<open>newNameFor\<close> with \<^verbatim>\<open>Required\<close> true: it asserts that the declaration has a name.\<close>

definition newNameFor :: "NameState \<Rightarrow> Decl \<Rightarrow> string option" where
  "newNameFor S D = map_of (Names S) D"

section \<open>Properties stated of the unique names\<close>

text \<open>
  The name \<^verbatim>\<open>assignUniqueName\<close> starts from: the bound name if there is one, else the
  name of the declaration; and the base it makes unique: a leading \<^verbatim>\<open>$\<close> becomes
  \<^verbatim>\<open>val\<close>.
\<close>

definition preferredName :: "(Decl \<Rightarrow> Identifier) \<Rightarrow> Decl \<Rightarrow> string \<Rightarrow> string" where
  "preferredName getDeclName D Bound = (if Bound \<noteq> [] then Bound else getDeclName D)"

definition baseNameFor :: "string \<Rightarrow> string" where
  "baseNameFor Preferred =
     (case Preferred of
        [] \<Rightarrow> []
      | c # rest \<Rightarrow> if c = CHR ''$'' then ''val'' @ rest else Preferred)"

text \<open>
  \<open>k\<close> is the smallest counter from \<open>from\<close> on whose numeral, appended to the name, gives
  an identifier that is not in use.
\<close>

definition smallestFreeSuffix :: "Identifier list \<Rightarrow> string \<Rightarrow> nat \<Rightarrow> nat \<Rightarrow> bool" where
  "smallestFreeSuffix CurrentNames Name from k =
     (from \<le> k \<and> Name @ to_string k \<notin> set CurrentNames
      \<and> (\<forall>j. from \<le> j \<and> j < k \<longrightarrow> Name @ to_string j \<in> set CurrentNames))"

text \<open>The names of the parameters of a sample closure, by declaration.\<close>

definition closureParamNames :: "Decl \<Rightarrow> Identifier" where
  "closureParamNames D =
     (if D = 1 then ''str'' else if D = 2 then ''err'' else if D = 3 then ''$0'' else [])"


section \<open>Completion-handler descriptors\<close>

text \<open>
  The types the detection looks at. A function type carries its parameters, each a plain
  type and whether the parameter is variadic, and its result. A bound generic type carries
  whether its declaration is \<^verbatim>\<open>Result\<close> and its generic arguments; \<^verbatim>\<open>Optional\<close> is kept apart
  since it is never \<^verbatim>\<open>Result\<close> and is only ever asked for its object type. The empty tuple is
  \<^verbatim>\<open>Void\<close>.
\<close>

datatype Type =
    VoidType
  | NominalType string
  | OptionalType Type
  | ArraySliceType Type
  | BoundGenericType bool "Type list"
  | FunctionType "(Type \<times> bool) list" Type

type_synonym Param = "Type \<times> bool"

fun isVoid :: "Type \<Rightarrow> bool" where
  "isVoid VoidType = True"
| "isVoid _ = False"

fun isResult :: "Type \<Rightarrow> bool" where
  "isResult (BoundGenericType r _) = r"
| "isResult _ = False"

fun getAsBoundGenericType :: "Type \<Rightarrow> (bool \<times> Type list) option" where
  "getAsBoundGenericType (BoundGenericType r GenericArgs) = Some (r, GenericArgs)"
| "getAsBoundGenericType _ = None"

fun getAsAnyFunctionType :: "Type \<Rightarrow> (Param list \<times> Type) option" where
  "getAsAnyFunctionType (FunctionType Params Result) = Some (Params, Result)"
| "getAsAnyFunctionType _ = None"

text \<open>\<^verbatim>\<open>getOptionalObjectType\<close>: the wrapped type of an optional, a null type otherwise.\<close>

fun getOptionalObjectType :: "Type \<Rightarrow> Type option" where
  "getOptionalObjectType (OptionalType T) = Some T"
| "getOptionalObjectType _ = None"

definition getPlainType :: "Param \<Rightarrow> Type" where
  "getPlainType P = fst P"

text \<open>\<^verbatim>\<open>getParameterType\<close>: a variadic parameter is seen as an array of its plain type.\<close>

definition getParameterType :: "Param \<Rightarrow> Type" where
  "getParameterType P = (if snd P then ArraySliceType (fst P) else fst P)"

text \<open>
  \<^verbatim>\<open>isErrorType\<close>. Conformance to \<^verbatim>\<open>Error\<close> is the type checker's answer and is taken as a
  parameter, as are \<^verbatim>\<open>isUninhabited\<close> and \<^verbatim>\<open>isCompletionHandlerParamName\<close> below.
\<close>

definition isErrorType :: "(Type \<Rightarrow> bool) \<Rightarrow> Type option \<Rightarrow> bool" where
  "isErrorType conformsToError Ty =
     (case Ty of None \<Rightarrow> False | Some T \<Rightarrow> conformsToError T)"

text \<open>
  A value declaration: a variable (or parameter) with its name and type, a function with
  its name, interface type and whether it has an implicit \<^verbatim>\<open>self\<close>, or anything else.
\<close>

datatype ValueDecl =
    VarDecl string Type
  | AbstractFunctionDecl string Type bool
  | OtherValueDecl

datatype HandlerType = INVALID | PARAMS | RESULT

record AsyncHandlerDesc =
  Handler :: "ValueDecl option"
  Type :: HandlerType
  HasError :: bool

definition defaultDesc :: AsyncHandlerDesc where
  "defaultDesc = \<lparr>Handler = None, Type = INVALID, HasError = False\<rparr>"

definition isValid :: "'a AsyncHandlerDesc_scheme \<Rightarrow> bool" where
  "isValid D = (Type D \<noteq> INVALID)"

text \<open>\<^verbatim>\<open>getNameStr\<close> and \<^verbatim>\<open>getType\<close>; \<^term>\<open>None\<close> is \<^verbatim>\<open>llvm_unreachable\<close> or a failed assertion.\<close>

definition getNameStr :: "'a AsyncHandlerDesc_scheme \<Rightarrow> string option" where
  "getNameStr D =
     (case Handler D of
        Some (VarDecl Name _) \<Rightarrow> Some Name
      | Some (AbstractFunctionDecl Name _ _) \<Rightarrow> Some Name
      | _ \<Rightarrow> None)"

definition getType :: "'a AsyncHandlerDesc_scheme \<Rightarrow> Type option" where
  "getType D =
     (case Handler D of
        Some (VarDecl _ Ty) \<Rightarrow> Some Ty
      | Some (AbstractFunctionDecl _ Ty hasImplicitSelfDecl) \<Rightarrow>
          if hasImplicitSelfDecl
          then (case getAsAnyFunctionType Ty of
                  None \<Rightarrow> None
                | Some (_, Result) \<Rightarrow> Some Result)
          else Some Ty
      | _ \<Rightarrow> None)"

text \<open>
  The block of \<^verbatim>\<open>AsyncHandlerDesc::get\<close> that looks for a single \<^verbatim>\<open>Result\<close> parameter. The
  assertion that \<^verbatim>\<open>Result\<close> has two generic arguments fails as \<^term>\<open>None\<close>.
\<close>

definition detectResult ::
    "(Type \<Rightarrow> bool) \<Rightarrow> Param list \<Rightarrow> AsyncHandlerDesc \<Rightarrow> AsyncHandlerDesc option" where
  "detectResult isUninhabited HandlerParams HandlerDesc =
     (if length HandlerParams = 1
      then (case getAsBoundGenericType (getPlainType (last HandlerParams)) of
              Some (True, GenericArgs) \<Rightarrow>
                if length GenericArgs = 2
                then Some (HandlerDesc\<lparr>Type := RESULT,
                                        HasError := \<not> isUninhabited (last GenericArgs)\<rparr>)
                else None
            | _ \<Rightarrow> Some HandlerDesc)
      else Some HandlerDesc)"

text \<open>
  The loop over the handler's parameters: \<^term>\<open>True\<close> when it returns from \<^verbatim>\<open>get\<close> because a
  parameter is a \<^verbatim>\<open>Result\<close>.
\<close>

fun anyResultParam :: "Param list \<Rightarrow> bool" where
  "anyResultParam [] = False"
| "anyResultParam (P # Params) =
     (if isResult (getPlainType P) then True else anyResultParam Params)"

definition detectParams ::
    "(Type \<Rightarrow> bool) \<Rightarrow> Param list \<Rightarrow> AsyncHandlerDesc \<Rightarrow> AsyncHandlerDesc" where
  "detectParams conformsToError HandlerParams HandlerDesc =
     (if Type HandlerDesc \<noteq> RESULT
      then if anyResultParam HandlerParams then defaultDesc
           else let D = HandlerDesc\<lparr>Type := PARAMS\<rparr> in
                if HandlerParams \<noteq> []
                then D\<lparr>HasError :=
                        isErrorType conformsToError
                          (getOptionalObjectType (getParameterType (last HandlerParams)))\<rparr>
                else D
      else HandlerDesc)"

text \<open>\<^verbatim>\<open>AsyncHandlerDesc::get\<close>.\<close>

definition get ::
    "(string \<Rightarrow> bool) \<Rightarrow> (Type \<Rightarrow> bool) \<Rightarrow> (Type \<Rightarrow> bool) \<Rightarrow> ValueDecl \<Rightarrow> bool
     \<Rightarrow> AsyncHandlerDesc option" where
  "get isCompletionHandlerParamName conformsToError isUninhabited H RequireName =
     (case H of
        OtherValueDecl \<Rightarrow> Some defaultDesc
      | _ \<Rightarrow>
        let HandlerDesc = defaultDesc\<lparr>Handler := Some H\<rparr> in
        (case getNameStr HandlerDesc of
           None \<Rightarrow> None
         | Some Name \<Rightarrow>
           if RequireName \<and> \<not> isCompletionHandlerParamName Name then Some defaultDesc
           else
             (case getType HandlerDesc of
                None \<Rightarrow> None
              | Some Ty \<Rightarrow>
                (case getAsAnyFunctionType Ty of
                   None \<Rightarrow> Some defaultDesc
                 | Some (HandlerParams, Result) \<Rightarrow>
                   if \<not> isVoid Result then Some defaultDesc
                   else
                     (case detectResult isUninhabited HandlerParams HandlerDesc of
                        None \<Rightarrow> None
                      | Some D \<Rightarrow> Some (detectParams conformsToError HandlerParams D))))))"

text \<open>
  A parameter declaration and a function declaration, with what \<^verbatim>\<open>find\<close> reads of them.
\<close>

record ParamDecl =
  ParamName :: string
  ParamType :: Type
  isAutoClosure :: bool

definition asValueDecl :: "ParamDecl \<Rightarrow> ValueDecl" where
  "asValueDecl P = VarDecl (ParamName P) (ParamType P)"

record FuncDecl =
  hasAsync :: bool
  hasThrows :: bool
  hasCompletionHandlerAsyncAttr :: bool
  Parameters :: "ParamDecl list"
  ResultInterfaceType :: Type

record AsyncHandlerParamDesc = AsyncHandlerDesc +
  Func :: "FuncDecl option"
  Index :: int

definition defaultParamDesc :: AsyncHandlerParamDesc where
  "defaultParamDesc =
     \<lparr>Handler = None, Type = INVALID, HasError = False, Func = None, Index = - 1\<rparr>"

definition paramDesc :: "AsyncHandlerDesc \<Rightarrow> FuncDecl \<Rightarrow> int \<Rightarrow> AsyncHandlerParamDesc" where
  "paramDesc D FD I =
     \<lparr>Handler = Handler D, Type = Type D, HasError = HasError D, Func = Some FD, Index = I\<rparr>"

text \<open>\<^verbatim>\<open>AsyncHandlerParamDesc::find\<close>; a null \<^verbatim>\<open>FD\<close> is \<^term>\<open>None\<close>.\<close>

definition find_desc ::
    "(string \<Rightarrow> bool) \<Rightarrow> (Type \<Rightarrow> bool) \<Rightarrow> (Type \<Rightarrow> bool) \<Rightarrow> FuncDecl option \<Rightarrow> bool
     \<Rightarrow> AsyncHandlerParamDesc option" where
  "find_desc isCompletionHandlerParamName conformsToError isUninhabited FD
       RequireAttributeOrName =
     (case FD of
        None \<Rightarrow> Some defaultParamDesc
      | Some F \<Rightarrow>
        if hasAsync F \<or> hasThrows F then Some defaultParamDesc
        else
          let RequireName =
                (if RequireAttributeOrName \<and> hasCompletionHandlerAsyncAttr F then False
                 else RequireAttributeOrName);
              Params = Parameters F
          in if length Params = 0 \<or> \<not> isVoid (ResultInterfaceType F)
             then Some defaultParamDesc
             else
               let I = int (length Params) - 1;
                   P = Params ! nat I
               in if isAutoClosure P then Some defaultParamDesc
                  else
                    (case get isCompletionHandlerParamName conformsToError isUninhabited
                            (asValueDecl P) RequireName of
                       None \<Rightarrow> None
                     | Some D \<Rightarrow> Some (paramDesc D F I)))"


section \<open>What a descriptor is said to be\<close>

text \<open>
  The candidate handler of a function is its last parameter. The function is turned down
  before the handler's type is looked at when it is already \<^verbatim>\<open>async\<close> or throws, has no
  parameter, does not return \<^verbatim>\<open>Void\<close>, when the candidate is an autoclosure, or when a
  completion-like name is required (asked for, and the function has no
  \<^verbatim>\<open>@completionHandlerAsync\<close> attribute) and the candidate's name is not one.
\<close>

definition candidate :: "FuncDecl \<Rightarrow> ParamDecl" where
  "candidate F = last (Parameters F)"

definition turnedDown :: "(string \<Rightarrow> bool) \<Rightarrow> FuncDecl \<Rightarrow> bool \<Rightarrow> bool" where
  "turnedDown isCompletionHandlerParamName F RequireAttributeOrName =
     (hasAsync F \<or> hasThrows F \<or> Parameters F = [] \<or> ResultInterfaceType F \<noteq> VoidType
      \<or> isAutoClosure (candidate F)
      \<or> (RequireAttributeOrName \<and> \<not> hasCompletionHandlerAsyncAttr F
          \<and> \<not> isCompletionHandlerParamName (ParamName (candidate F))))"

text \<open>
  The kind and the error flag read off the parameters of a handler of \<^verbatim>\<open>Void\<close>-returning
  function type: a single \<^verbatim>\<open>Result\<close> of two generic arguments is \<^term>\<open>RESULT\<close>, with an error
  iff the second argument is inhabited; otherwise a \<^verbatim>\<open>Result\<close> anywhere among the parameters
  is \<^term>\<open>INVALID\<close>; otherwise the kind is \<^term>\<open>PARAMS\<close>, with an error iff there is a last
  parameter, its type is an optional, and the wrapped type conforms to \<^verbatim>\<open>Error\<close>.
\<close>

definition isOptionalError :: "(Type \<Rightarrow> bool) \<Rightarrow> Type \<Rightarrow> bool" where
  "isOptionalError conformsToError T =
     (case T of OptionalType W \<Rightarrow> conformsToError W | _ \<Rightarrow> False)"

definition singleResult :: "Param list \<Rightarrow> Type option" where
  "singleResult Ps =
     (case Ps of
        [P] \<Rightarrow> (case fst P of
                  BoundGenericType True [S, E] \<Rightarrow> Some E
                | _ \<Rightarrow> None)
      | _ \<Rightarrow> None)"

definition describedParams ::
    "(Type \<Rightarrow> bool) \<Rightarrow> (Type \<Rightarrow> bool) \<Rightarrow> Param list \<Rightarrow> HandlerType \<times> bool" where
  "describedParams conformsToError isUninhabited Ps =
     (case singleResult Ps of
        Some E \<Rightarrow> (RESULT, \<not> isUninhabited E)
      | None \<Rightarrow>
          if list_ex (\<lambda>P. isResult (fst P)) Ps then (INVALID, False)
          else (PARAMS, Ps \<noteq> [] \<and> isOptionalError conformsToError (getParameterType (last Ps))))"

definition describedHandler ::
    "(string \<Rightarrow> bool) \<Rightarrow> (Type \<Rightarrow> bool) \<Rightarrow> (Type \<Rightarrow> bool) \<Rightarrow> FuncDecl \<Rightarrow> bool
     \<Rightarrow> HandlerType \<times> bool" where
  "describedHandler isCompletionHandlerParamName conformsToError isUninhabited F
       RequireAttributeOrName =
     (if turnedDown isCompletionHandlerParamName F RequireAttributeOrName then (INVALID, False)
      else (case ParamType (candidate F) of
              FunctionType Ps VoidType \<Rightarrow> describedParams conformsToError isUninhabited Ps
            | _ \<Rightarrow> (INVALID, False)))"

text \<open>
  Sample answers of the type checker: \<^verbatim>\<open>Error\<close> is the one conforming type, \<^verbatim>\<open>Never\<close> the one
  uninhabited type, and \<^verbatim>\<open>completion\<close> the one completion-like name.
\<close>

definition sampleConforms :: "Type \<Rightarrow> bool" where
  "sampleConforms T = (T = NominalType ''Error'')"

definition sampleUninhabited :: "Type \<Rightarrow> bool" where
  "sampleUninhabited T = (T = NominalType ''Never'')"

definition sampleCompletionName :: "string \<Rightarrow> bool" where
  "sampleCompletionName Name = (Name = ''completion'')"

text \<open>
  \<^verbatim>\<open>func load(completion: (Data?, Error?) -> Void)\<close>,
  \<^verbatim>\<open>func load(completion: (Result<Data, Error>) -> Void)\<close> and
  \<^verbatim>\<open>func load(completion: (Result<Data, Error>, Int) -> Void)\<close>.
\<close>

definition funcWith :: "Param list \<Rightarrow> FuncDecl" where
  "funcWith Ps =
     \<lparr>hasAsync = False, hasThrows = False, hasCompletionHandlerAsyncAttr = False,
      Parameters = [\<lparr>ParamName = ''completion'', ParamType = FunctionType Ps VoidType,
                     isAutoClosure = False\<rparr>],
      ResultInterfaceType = VoidType\<rparr>"

definition resultOfDataError :: Type where
  "resultOfDataError = BoundGenericType True [NominalType ''Data'', NominalType ''Error'']"

definition paramsFunc :: FuncDecl where
  "paramsFunc = funcWith [(OptionalType (NominalType ''Data''), False),
                          (OptionalType (NominalType ''Error''), False)]"

definition resultFunc :: FuncDecl where
  "resultFunc = funcWith [(resultOfDataError, False)]"

definition resultAndIntFunc :: FuncDecl where
  "resultAndIntFunc = funcWith [(resultOfDataError, False), (NominalType ''Int'', False)]"


section \<open>Properties stated of the classifier\<close>

text \<open>
  A statement is routed to a block when it is appended, whole, to the nodes of that
  block, and the other block, the diagnostics and the current block stay as they were.
\<close>

fun otherRef :: "BlockRef \<Rightarrow> BlockRef" where
  "otherRef SuccessRef = ErrorRef"
| "otherRef ErrorRef = SuccessRef"

definition nodesOf :: "BlockRef \<Rightarrow> CallbackClassifier \<Rightarrow> ASTNode list" where
  "nodesOf r C = Nodes (BlockNodes (getBlock r (Blocks C)))"

definition routedTo ::
    "BlockRef \<Rightarrow> Stmt \<Rightarrow> CallbackClassifier \<Rightarrow> CallbackClassifier \<Rightarrow> bool" where
  "routedTo r S C C' =
     (nodesOf r C' = nodesOf r C @ [StmtNode S]
      \<and> getBlock (otherRef r) (Blocks C') = getBlock (otherRef r) (Blocks C)
      \<and> DiagEngine C' = DiagEngine C
      \<and> CurrentBlock C' = CurrentBlock C
      \<and> HandledSwitches C' = HandledSwitches C)"

text \<open>
  A node is turned down with a diagnostic when the blocks stay as they were, the
  diagnostic is the one reported last, and the engine has seen an error.
\<close>

definition turnedDownWith ::
    "SourceLoc \<Rightarrow> Diag \<Rightarrow> CallbackClassifier \<Rightarrow> CallbackClassifier \<Rightarrow> bool" where
  "turnedDownWith Loc d C C' =
     (Blocks C' = Blocks C
      \<and> Diagnosed (DiagEngine C') = Diagnosed (DiagEngine C) @ [(Loc, d)]
      \<and> HadAnyError (DiagEngine C')
      \<and> HandledSwitches C' = HandledSwitches C)"

text \<open>
  The heuristic for a statement without an else whose conditions are recognised in
  part: it goes with the error path when the condition recognised on the error
  parameter is a test for not being \<^verbatim>\<open>nil\<close>, or when any recognised condition is a test for
  being \<^verbatim>\<open>nil\<close>.
\<close>

definition goesWithError :: "Decl \<Rightarrow> (Decl \<times> CallbackCondition) list \<Rightarrow> bool" where
  "goesWithError Err Conds =
     (CondType (lookupCond Conds Err) = NOT_NIL
      \<or> list_ex (\<lambda>Entry. CondType (snd Entry) = NIL) Conds)"

text \<open>
  What is looked at after a classification: the nodes of the success block, the nodes of
  the error block, the diagnostics and the switches recorded as handled.
\<close>

definition outcome ::
    "CallbackClassifier option
     \<Rightarrow> (ASTNode list \<times> ASTNode list \<times> (SourceLoc \<times> Diag) list \<times> Stmt list) option" where
  "outcome R =
     map_option (\<lambda>C. (nodesOf SuccessRef C, nodesOf ErrorRef C, Diagnosed (DiagEngine C),
                       HandledSwitches C)) R"

text \<open>
  A classifier at the start of a closure \<^verbatim>\<open>{ res, err in ... }\<close>, where \<^verbatim>\<open>res\<close> is the
  declaration 1 and \<^verbatim>\<open>err\<close> the declaration 2, and the statements
  \<^verbatim>\<open>if res == nil && other() { }\<close> and \<^verbatim>\<open>if err != nil && other() { }\<close>.
\<close>

definition sampleClassifier :: CallbackClassifier where
  "sampleClassifier =
     \<lparr>Blocks = \<lparr>SuccessBlock = emptyBlock, ErrorBlock = emptyBlock\<rparr>,
      HandledSwitches = [],
      DiagEngine = \<lparr>Diagnosed = [], HadAnyError = False\<rparr>,
      CurrentBlock = SuccessRef, UnwrapParams = [1, 2], ErrParam = 2,
      IsResultParam = False\<rparr>"

definition declRef :: "Decl \<Rightarrow> Expr" where
  "declRef D = DeclRefExpr \<lparr>RefDecl = D, TypeIsResult = False, FuncName = None\<rparr>"

definition andOther :: "Expr \<Rightarrow> StmtConditionElement list" where
  "andOther E = [BooleanCond (BinaryExpr (Some ''&&'') E (OtherExpr 0))]"

definition ifResIsNil :: Stmt where
  "ifResIsNil =
     IfStmt (Some 10) (andOther (BinaryExpr (Some ''=='') (declRef 1) NilLiteralExpr))
       (BraceStmt [] (Some 40) False) None"

definition ifErrIsNotNil :: Stmt where
  "ifErrIsNotNil =
     IfStmt (Some 10) (andOther (BinaryExpr (Some ''!='') (declRef 2) NilLiteralExpr))
       (BraceStmt [] (Some 40) False) None"

text \<open>The condition and the else branch of an \<^verbatim>\<open>if\<close> or a \<^verbatim>\<open>guard\<close>.\<close>

fun conditional :: "Stmt \<Rightarrow> (StmtConditionElement list \<times> Stmt option) option" where
  "conditional (IfStmt l Cond ThenStmt ElseStmt) = Some (Cond, ElseStmt)"
| "conditional (GuardStmt l Cond Body) = Some (Cond, Some Body)"
| "conditional s = None"

text \<open>
  A case of a switch is well shaped when it has no fallthrough, is not the default, and
  has exactly one pattern, without a \<^verbatim>\<open>where\<close> clause. For a case that is not well shaped
  and has a pattern, \<open>shapeDiag\<close> is the diagnostic of its shape.
\<close>

fun wellShaped :: "CaseStmt \<Rightarrow> bool" where
  "wellShaped (CaseStmt StartLoc Loc hasFallthroughDest isDefault Items
                 BodyElements BodyRBrace BodyImplicit) =
     (\<not> hasFallthroughDest \<and> \<not> isDefault
      \<and> (case Items of [CaseLabelItem P hasWhere] \<Rightarrow> \<not> hasWhere | _ \<Rightarrow> False))"

fun shapeDiag :: "CaseStmt \<Rightarrow> Diag" where
  "shapeDiag (CaseStmt StartLoc Loc hasFallthroughDest isDefault Items
                BodyElements BodyRBrace BodyImplicit) =
     (if hasFallthroughDest then callback_with_fallthrough
      else if isDefault then callback_with_default
      else if length Items > 1 then callback_multiple_case_items
      else callback_where_case_item)"

fun caseLoc :: "CaseStmt \<Rightarrow> SourceLoc" where
  "caseLoc (CaseStmt StartLoc Loc hasFallthroughDest isDefault Items
              BodyElements BodyRBrace BodyImplicit) = Loc"

text \<open>The case for the \<^verbatim>\<open>failure\<close> element of \<^verbatim>\<open>Result\<close>.\<close>

fun isFailureCase :: "CaseStmt \<Rightarrow> bool" where
  "isFailureCase (CaseStmt StartLoc Loc hasFallthroughDest isDefault Items
                    BodyElements BodyRBrace BodyImplicit) =
     (case Items of
        [CaseLabelItem (EnumElementPattern (Some EED) Sub) hasWhere] \<Rightarrow>
          ParentIsResult EED \<and> ElementName EED = ''failure''
      | _ \<Rightarrow> False)"

text \<open>
  What is kept of the body of a case: its elements other than variable declarations,
  without a trailing explicit \<^verbatim>\<open>break\<close> or explicit \<^verbatim>\<open>return\<close> with no result.
\<close>

fun isBareReturnOrBreak :: "ASTNode \<Rightarrow> bool" where
  "isBareReturnOrBreak (StmtNode (ReturnStmt l hasResult implicit)) =
     (\<not> implicit \<and> \<not> hasResult)"
| "isBareReturnOrBreak (StmtNode (BreakStmt l implicit)) = (\<not> implicit)"
| "isBareReturnOrBreak n = False"

definition withoutTrailing :: "ASTNode list \<Rightarrow> ASTNode list" where
  "withoutTrailing ns = (if ns \<noteq> [] \<and> isBareReturnOrBreak (last ns) then butlast ns else ns)"

fun keptNodes :: "CaseStmt \<Rightarrow> ASTNode list" where
  "keptNodes (CaseStmt StartLoc Loc hasFallthroughDest isDefault Items
                BodyElements BodyRBrace BodyImplicit) =
     withoutTrailing (filter (\<lambda>n. \<not> isVarDecl n) BodyElements)"

text \<open>
  A classifier for a closure \<^verbatim>\<open>{ result in ... }\<close> over a \<^verbatim>\<open>Result\<close>, the declaration 1, and
  the statements \<^verbatim>\<open>switch result { case .success(let x): use(x); case .failure(let e):
  report(e); return }\<close> and \<^verbatim>\<open>switch result { case .success(let x): use(x); default:
  break }\<close>.
\<close>

definition resultClassifier :: CallbackClassifier where
  "resultClassifier =
     \<lparr>Blocks = \<lparr>SuccessBlock = emptyBlock, ErrorBlock = emptyBlock\<rparr>,
      HandledSwitches = [],
      DiagEngine = \<lparr>Diagnosed = [], HadAnyError = False\<rparr>,
      CurrentBlock = SuccessRef, UnwrapParams = [1], ErrParam = 1,
      IsResultParam = True\<rparr>"

definition resultElement :: "string \<Rightarrow> string \<Rightarrow> Decl \<Rightarrow> CaseLabelItem" where
  "resultElement Element Bound Var =
     CaseLabelItem
       (EnumElementPattern (Some \<lparr>ParentIsResult = True, ElementName = Element\<rparr>)
          (Some \<lparr>BindingIsLet = Some True, BoundName = Bound, SingleVar = Var\<rparr>))
       False"

definition successCase :: CaseStmt where
  "successCase =
     CaseStmt (Some 20) (Some 20) False False [resultElement ''success'' ''x'' 5]
       [ExprNode (OtherExpr 1)] (Some 30) True"

definition failureCase :: CaseStmt where
  "failureCase =
     CaseStmt (Some 40) (Some 40) False False [resultElement ''failure'' ''e'' 6]
       [ExprNode (OtherExpr 2), StmtNode (ReturnStmt (Some 50) False False)] (Some 60) True"

definition defaultCase :: CaseStmt where
  "defaultCase =
     CaseStmt (Some 40) (Some 40) False True [CaseLabelItem OtherPattern False]
       [StmtNode (BreakStmt (Some 50) False)] (Some 60) True"

definition resultRef :: Expr where
  "resultRef = DeclRefExpr \<lparr>RefDecl = 1, TypeIsResult = True, FuncName = None\<rparr>"

definition switchOnResult :: Stmt where
  "switchOnResult = SwitchStmt (Some 10) resultRef [successCase, failureCase] (Some 70)"

definition switchWithDefault :: Stmt where
  "switchWithDefault = SwitchStmt (Some 10) resultRef [successCase, defaultCase] (Some 70)"

text \<open>
  What the cases of a switch give to the error block (\<open>failure\<close> true) and to the
  success block (\<open>failure\<close> false), in the order of the cases.
\<close>

definition caseNodes :: "bool \<Rightarrow> CaseStmt list \<Rightarrow> ASTNode list" where
  "caseNodes failure Cases =
     concat (map keptNodes (filter (\<lambda>c. isFailureCase c = failure) Cases))"


section \<open>The converter: hoisting a closure callback\<close>

text \<open>
  \<^verbatim>\<open>AsyncConverter\<close>, as far as \<^verbatim>\<open>addHoistedClosureCallback\<close> uses it: the output stream
  \<^verbatim>\<open>OS\<close>, the names (\<^verbatim>\<open>Names\<close> and \<^verbatim>\<open>ScopedNames\<close>), \<^verbatim>\<open>Unwraps\<close>, \<^verbatim>\<open>Placeholders\<close>, the
  diagnostic engine and \<^verbatim>\<open>HandledSwitches\<close>.
\<close>

record AsyncConverter =
  OS :: string
  NameSt :: NameState
  Unwraps :: "Decl list"
  Placeholders :: "Decl list"
  ConverterDiag :: DiagnosticEngine
  ConverterSwitches :: "Stmt list"


definition nl :: string where
  "nl = [CHR 0x0A]"

text \<open>\<^verbatim>\<open>OS << Text\<close>.\<close>

definition emit :: "string \<Rightarrow> AsyncConverter \<Rightarrow> AsyncConverter" where
  "emit Text S = S\<lparr>OS := OS S @ Text\<rparr>"











text \<open>\<^verbatim>\<open>newNameFor\<close> on the converter, and \<^verbatim>\<open>clearNames\<close>.\<close>

definition nameFor :: "AsyncConverter \<Rightarrow> Decl \<Rightarrow> string option" where
  "nameFor S D = newNameFor (NameSt S) D"
























section \<open>Properties stated of the fallback\<close>


























section \<open>The spans of a split label\<close>

lemma tiles_le: "tiles s rs e \<Longrightarrow> s \<le> e"
proof (induction rs arbitrary: s)
  case Nil
  then show ?case by simp
next
  case (Cons r rs)
  then have "getEnd r \<le> e" by simp
  moreover have "s = Start r" using Cons.prems by simp
  ultimately show ?case by (simp add: getEnd_def)
qed

lemma tiles_concat:
  "tiles s rs e \<Longrightarrow> e \<le> length buf \<Longrightarrow> concat (map (str buf) rs) = take (e - s) (drop s buf)"
proof (induction rs arbitrary: s)
  case Nil
  then show ?case by simp
next
  case (Cons r rs)
  then have t: "tiles (getEnd r) rs e" and s: "Start r = s" by auto
  from tiles_le[OF t] have le: "getEnd r \<le> e" .
  have "concat (map (str buf) rs) = take (e - getEnd r) (drop (getEnd r) buf)"
    using Cons.IH[OF t Cons.prems(2)] .
  moreover have "str buf r = take (ByteLength r) (drop s buf)"
    by (simp add: str_def s)
  moreover have "take (ByteLength r) (drop s buf) @ take (e - getEnd r) (drop (getEnd r) buf)
     = take (e - s) (drop s buf)"
  proof -
    have "e - s = ByteLength r + (e - getEnd r)" using le s by (simp add: getEnd_def)
    moreover have "drop (getEnd r) buf = drop (ByteLength r) (drop s buf)"
      by (simp add: getEnd_def s add.commute)
    ultimately show ?thesis by (simp add: take_add)
  qed
  ultimately show ?case by simp
qed

lemma find_first_of_Some:
  "find_first_of s cs = Some i \<Longrightarrow> i < length s \<and> s ! i \<in> set cs \<and> set (take i s) \<inter> set cs = {}"
  by (induction s arbitrary: i) (auto split: if_splits)

lemma find_first_of_None:
  "find_first_of s cs = None \<longleftrightarrow> set s \<inter> set cs = {}"
  by (induction s) auto

lemma find_last_of_Some:
  "find_last_of s cs = Some i \<Longrightarrow> i < length s \<and> s ! i \<in> set cs \<and> set (drop (Suc i) s) \<inter> set cs = {}"
proof -
  assume a: "find_last_of s cs = Some i"
  then obtain j where j: "find_first_of (rev s) cs = Some j" and i: "i = length s - 1 - j"
    by (auto simp: find_last_of_def split: option.splits)
  from find_first_of_Some[OF j] have jl: "j < length s" and jm: "rev s ! j \<in> set cs"
    and jn: "set (take j (rev s)) \<inter> set cs = {}" by auto
  have il: "i < length s" using i jl by simp
  have "rev s ! j = s ! i" using jl i by (simp add: rev_nth)
  moreover have "take j (rev s) = rev (drop (Suc i) s)"
  proof -
    have "length s - j = Suc i" using i jl by simp
    then show ?thesis by (simp add: take_rev)
  qed
  ultimately show ?thesis using il jm jn by simp
qed

lemma find_last_of_None:
  "find_last_of s cs = None \<longleftrightarrow> set s \<inter> set cs = {}"
proof -
  have "find_last_of s cs = None \<longleftrightarrow> find_first_of (rev s) cs = None"
    by (simp add: find_last_of_def split: option.splits)
  then show ?thesis by (simp add: find_first_of_None)
qed

lemma first_le_last:
  "find_first_of s cs = Some f \<Longrightarrow> find_last_of s cs = Some l \<Longrightarrow> f \<le> l"
proof (rule ccontr)
  assume f: "find_first_of s cs = Some f" and l: "find_last_of s cs = Some l" and n: "\<not> f \<le> l"
  from find_first_of_Some[OF f] have fl: "f < length s" and fm: "s ! f \<in> set cs" by auto
  from find_last_of_Some[OF l] have "set (drop (Suc l) s) \<inter> set cs = {}" by auto
  moreover have "s ! f \<in> set (drop (Suc l) s)"
  proof -
    have "drop (Suc l) s ! (f - Suc l) = s ! f" using n fl by simp
    moreover have "f - Suc l < length (drop (Suc l) s)" using n fl by simp
    ultimately show ?thesis by (metis nth_mem)
  qed
  ultimately show False using fm by auto
qed


lemma length_str: "getEnd Rng \<le> length buf \<Longrightarrow> length (str buf Rng) = ByteLength Rng"
  by (simp add: str_def getEnd_def)

lemma str_sub:
  "a + n \<le> ByteLength Rng \<Longrightarrow>
   str buf (mkRange (Start Rng + a) n) = take n (drop a (str buf Rng))"
  by (simp add: str_def mkRange_def take_drop add.commute min_def)

lemma length_rtrim: "length (rtrim s) \<le> length s"
  by (simp add: rtrim_def length_dropWhile_le[of _ "rev s", simplified])

lemma coversExactly_concat:
  "coversExactly Rng rs \<Longrightarrow> getEnd Rng \<le> length buf \<Longrightarrow>
   concat (map (str buf) rs) = str buf Rng"
  using tiles_concat[of "Start Rng" rs "getEnd Rng" buf]
  by (simp add: coversExactly_def str_def getEnd_def)

lemma callArg_spans:
  assumes inb: "getEnd Rng \<le> length buf"
    and sp: "splitAndRenameCallArg buf Rng NameIndex = Some calls"
  shows "coversExactly Rng (map callRange calls)"
proof (cases "find_char (str buf Rng) CHR '':''")
  case None
  with sp have "calls = [DoRenameLabel Rng CallArgumentCombined NameIndex]"
    by (auto simp: splitAndRenameCallArg_def split: if_splits)
  then show ?thesis by (simp add: coversExactly_def)
next
  case (Some c)
  define k where "k = length (rtrim (take c (str buf Rng)))"
  from Some have "c < length (str buf Rng)"
    using find_first_of_Some[of "str buf Rng" "[CHR '':'']" c] by (simp add: find_char_def)
  then have cl: "c < ByteLength Rng" using inb by (simp add: length_str)
  have "k \<le> length (take c (str buf Rng))" unfolding k_def by (rule length_rtrim)
  then have kl: "k \<le> ByteLength Rng" using cl by simp
  from sp Some have "calls =
      [DoRenameLabel (mkRange (Start Rng) k) CallArgumentLabel NameIndex,
       DoRenameLabel (mkRange (Start Rng + k) (length (str buf Rng) - k)) CallArgumentColon NameIndex]"
    by (simp add: splitAndRenameCallArg_def Let_def k_def)
  then show ?thesis using kl inb
    by (simp add: coversExactly_def mkRange_def getEnd_def length_str)
qed

lemma find_first_of_takeWhile:
  "find_first_of s cs = Some i \<Longrightarrow> i = length (takeWhile (\<lambda>c. c \<notin> set cs) s)"
  by (induction s arbitrary: i) (auto split: if_splits)

lemma find_first_of_firstBoundary:
  "find_first_of s boundaryChars = Some i \<Longrightarrow> i = firstBoundary s"
  unfolding firstBoundary_def by (rule find_first_of_takeWhile)

lemma find_last_of_lastBoundary:
  assumes "find_last_of s boundaryChars = Some i"
  shows "i = lastBoundary s"
proof -
  from assms obtain j where j: "find_first_of (rev s) boundaryChars = Some j"
    and i: "i = length s - 1 - j"
    by (auto simp: find_last_of_def split: option.splits)
  from find_first_of_takeWhile[OF j] i show ?thesis by (simp add: lastBoundary_def)
qed

text \<open>
  \<open>firstBoundary\<close> and \<open>lastBoundary\<close> are what their names say, for a text that has a
  whitespace or slash.
\<close>

lemma firstBoundary_first:
  assumes "set s \<inter> set boundaryChars \<noteq> {}"
  shows "firstBoundary s < length s \<and> s ! firstBoundary s \<in> set boundaryChars
         \<and> set (take (firstBoundary s) s) \<inter> set boundaryChars = {}"
proof -
  from assms have "find_first_of s boundaryChars \<noteq> None" by (simp add: find_first_of_None)
  then obtain i where i: "find_first_of s boundaryChars = Some i" by auto
  from find_first_of_Some[OF i] find_first_of_firstBoundary[OF i] show ?thesis by simp
qed

lemma lastBoundary_last:
  assumes "set s \<inter> set boundaryChars \<noteq> {}"
  shows "lastBoundary s < length s \<and> s ! lastBoundary s \<in> set boundaryChars
         \<and> set (drop (Suc (lastBoundary s)) s) \<inter> set boundaryChars = {}"
proof -
  from assms have "find_last_of s boundaryChars \<noteq> None" by (simp add: find_last_of_None)
  then obtain i where i: "find_last_of s boundaryChars = Some i" by auto
  from find_last_of_Some[OF i] find_last_of_lastBoundary[OF i] show ?thesis by simp
qed

lemma paramLabel_spans:
  assumes inb: "getEnd Rng \<le> length buf"
    and sp: "splitAndRenameParamLabel buf Rng NameIndex IsCollapsible = Some calls"
  shows "\<exists>ext loc. calls = [DoRenameLabel ext DeclArgumentLabel NameIndex,
                     DoRenameLabel loc (if IsCollapsible then ParameterName
                                        else NoncollapsibleParameterName) NameIndex]
          \<and> paramSpans buf Rng IsCollapsible ext loc"
proof (cases "find_first_of (str buf Rng) boundaryChars")
  case None
  then have nb: "set (str buf Rng) \<inter> set boundaryChars = {}" by (simp add: find_first_of_None)
  show ?thesis
  proof (cases IsCollapsible)
    case True
    with sp None have "calls = [DoRenameLabel Rng DeclArgumentLabel NameIndex,
        DoRenameLabel (mkRange (getEnd Rng) 0) ParameterName NameIndex]"
      by (simp add: splitAndRenameParamLabel_def)
    moreover have "paramSpans buf Rng True Rng (mkRange (getEnd Rng) 0)"
      using nb by (simp add: paramSpans_def coversExactly_def separatorBetween_def
          mkRange_def getEnd_def str_def)
    ultimately show ?thesis using True by simp
  next
    case False
    with sp None have "calls = [DoRenameLabel (mkRange (Start Rng) 0) DeclArgumentLabel NameIndex,
        DoRenameLabel Rng NoncollapsibleParameterName NameIndex]"
      by (simp add: splitAndRenameParamLabel_def)
    moreover have "paramSpans buf Rng False (mkRange (Start Rng) 0) Rng"
      using nb by (simp add: paramSpans_def coversExactly_def separatorBetween_def
          mkRange_def getEnd_def str_def)
    ultimately show ?thesis using False by simp
  qed
next
  case (Some f)
  from find_first_of_Some[OF Some]
  have fl: "f < length (str buf Rng)" and fm: "str buf Rng ! f \<in> set boundaryChars" by auto
  have "str buf Rng ! f \<in> set (str buf Rng)" using fl by simp
  with fm have ne: "set (str buf Rng) \<inter> set boundaryChars \<noteq> {}" by blast
  then have "find_last_of (str buf Rng) boundaryChars \<noteq> None"
    by (simp add: find_last_of_None)
  then obtain l where l: "find_last_of (str buf Rng) boundaryChars = Some l" by auto
  from find_last_of_Some[OF l] have ll: "l < length (str buf Rng)" by auto
  have fle: "f \<le> l" using first_le_last[OF Some l] .
  have len: "length (str buf Rng) = ByteLength Rng" using inb by (rule length_str)
  have ff: "f = firstBoundary (str buf Rng)" using Some by (rule find_first_of_firstBoundary)
  have lf: "l = lastBoundary (str buf Rng)" using l by (rule find_last_of_lastBoundary)
  define k where "k = l + (if IsCollapsible then 0 else 1)"
  define ext where "ext = mkRange (Start Rng) f"
  define loc where "loc = mkRange (Start Rng + k) (ByteLength Rng - k)"
  have kl: "k \<le> ByteLength Rng" using ll len by (simp add: k_def)
  have fk: "f \<le> k" using fle by (simp add: k_def)
  have calls: "calls = [DoRenameLabel ext DeclArgumentLabel NameIndex,
        DoRenameLabel loc (if IsCollapsible then ParameterName
                           else NoncollapsibleParameterName) NameIndex]"
    using sp Some l by (auto simp: splitAndRenameParamLabel_def Let_def ext_def loc_def k_def len)
  have c1: "coversExactly Rng [ext, separatorBetween ext loc, loc]"
    using fk kl by (simp add: coversExactly_def separatorBetween_def ext_def loc_def
        mkRange_def getEnd_def)
  have c2: "ext = mkRange (Start Rng) (firstBoundary (str buf Rng))"
    by (simp add: ext_def ff)
  have c3: "loc = (let k = lastBoundary (str buf Rng) + (if IsCollapsible then 0 else 1)
                   in mkRange (Start Rng + k) (ByteLength Rng - k))"
    by (simp add: loc_def k_def lf Let_def)
  have "paramSpans buf Rng IsCollapsible ext loc"
    unfolding paramSpans_def using c1 c2 c3 ne by simp
  with calls show ?thesis by blast
qed

lemma find_char_takeWhile:
  "find_char s c = Some i \<Longrightarrow> take i s = takeWhile (\<lambda>x. x \<noteq> c) s"
  unfolding find_char_def
  by (induction s arbitrary: i) (auto split: if_splits)

lemma callArg_kinds:
  assumes "splitAndRenameCallArg buf Rng NameIndex = Some calls"
  shows "if CHR '':'' \<in> set (str buf Rng)
         then map callKind calls = [CallArgumentLabel, CallArgumentColon]
              \<and> callRange (calls ! 0) = callArgLabel buf Rng
         else str buf Rng = [] \<and> calls = [DoRenameLabel Rng CallArgumentCombined NameIndex]"
proof (cases "find_char (str buf Rng) CHR '':''")
  case None
  then have "CHR '':'' \<notin> set (str buf Rng)"
    using find_first_of_None[of "str buf Rng" "[CHR '':'']"] by (simp add: find_char_def)
  with assms None show ?thesis by (auto simp: splitAndRenameCallArg_def split: if_splits)
next
  case (Some c)
  then have "c < length (str buf Rng) \<and> str buf Rng ! c = CHR '':''"
    using find_first_of_Some[of "str buf Rng" "[CHR '':'']" c] by (simp add: find_char_def)
  then have "CHR '':'' \<in> set (str buf Rng)" using nth_mem by fastforce
  with assms Some find_char_takeWhile[OF Some] show ?thesis
    by (auto simp: splitAndRenameCallArg_def Let_def callArgLabel_def)
qed

text \<open>
  C8, as amended. For a span inside the buffer that \<^verbatim>\<open>splitAndRenameLabel\<close> splits:
  a call-argument span with a colon gives a label sub-span, the text before the first
  colon without the whitespace at its end, followed by a colon sub-span; an empty
  call-argument span gives one combined sub-span, the span itself; in both cases the
  sub-spans tile the span, so their texts concatenated are the text of the span. A
  parameter span gives an external-label sub-span and an internal-name sub-span, in
  this order and without overlap; together with the separator between them they tile
  the span. When the span has a whitespace or slash, the external label is the part of
  the span before the first one, and the internal name is the part of the span from the
  last one on (collapsible) or after the last one (non-collapsible). Without such a
  character, a collapsible parameter has the whole span as external label and an empty
  internal name at its end, and a non-collapsible one an empty external label at its
  start and the whole span as internal name. A selector span is one sub-span, the span
  itself.
\<close>

theorem splitAndRenameLabel_spans:
  assumes "getEnd Rng \<le> length buf"
    and "splitAndRenameLabel buf Rng RangeType NameIndex = Some calls"
  shows "(RangeType = CallArg \<longrightarrow>
            coversExactly Rng (map callRange calls)
            \<and> concat (map (str buf) (map callRange calls)) = str buf Rng
            \<and> (if CHR '':'' \<in> set (str buf Rng)
               then map callKind calls = [CallArgumentLabel, CallArgumentColon]
                    \<and> callRange (calls ! 0) = callArgLabel buf Rng
               else str buf Rng = []
                    \<and> calls = [DoRenameLabel Rng CallArgumentCombined NameIndex]))
       \<and> (RangeType = Param \<or> RangeType = NoncollapsibleParam \<longrightarrow>
            length calls = 2
            \<and> map callKind calls =
                [DeclArgumentLabel,
                 if RangeType = Param then ParameterName else NoncollapsibleParameterName]
            \<and> paramSpans buf Rng (RangeType = Param)
                 (callRange (calls ! 0)) (callRange (calls ! 1))
            \<and> str buf (callRange (calls ! 0))
                @ str buf (separatorBetween (callRange (calls ! 0)) (callRange (calls ! 1)))
                @ str buf (callRange (calls ! 1)) = str buf Rng)
       \<and> (RangeType = Selector \<longrightarrow> calls = [DoRenameLabel Rng SelectorArgumentLabel NameIndex])
       \<and> RangeType \<noteq> NoLabel
       \<and> list_all (\<lambda>c. callIndex c = Some NameIndex) calls"
proof (cases RangeType)
  case NoLabel
  with assms(2) show ?thesis by (simp add: splitAndRenameLabel_def)
next
  case CallArg
  with assms(2) have sp: "splitAndRenameCallArg buf Rng NameIndex = Some calls"
    by (simp add: splitAndRenameLabel_def)
  have c: "coversExactly Rng (map callRange calls)" using callArg_spans[OF assms(1) sp] .
  have t: "concat (map (str buf) (map callRange calls)) = str buf Rng"
    using coversExactly_concat[OF c assms(1)] .
  note k = callArg_kinds[OF sp]
  have i: "list_all (\<lambda>c. callIndex c = Some NameIndex) calls"
    using sp by (auto simp: splitAndRenameCallArg_def Let_def split: option.splits if_splits)
  show ?thesis
  proof (cases "CHR '':'' \<in> set (str buf Rng)")
    case True
    with k CallArg c t i show ?thesis by simp
  next
    case False
    with k CallArg c t i show ?thesis by simp
  qed
next
  case Param
  with assms(2) have sp: "splitAndRenameParamLabel buf Rng NameIndex True = Some calls"
    by (simp add: splitAndRenameLabel_def)
  from paramLabel_spans[OF assms(1) sp] obtain ext loc where
    calls: "calls = [DoRenameLabel ext DeclArgumentLabel NameIndex,
                     DoRenameLabel loc ParameterName NameIndex]"
    and ps: "paramSpans buf Rng True ext loc" by auto
  from ps have "coversExactly Rng [ext, separatorBetween ext loc, loc]"
    by (simp add: paramSpans_def)
  from coversExactly_concat[OF this assms(1)]
  have "str buf ext @ str buf (separatorBetween ext loc) @ str buf loc = str buf Rng" by simp
  with calls ps Param show ?thesis by simp
next
  case NoncollapsibleParam
  with assms(2) have sp: "splitAndRenameParamLabel buf Rng NameIndex False = Some calls"
    by (simp add: splitAndRenameLabel_def)
  from paramLabel_spans[OF assms(1) sp] obtain ext loc where
    calls: "calls = [DoRenameLabel ext DeclArgumentLabel NameIndex,
                     DoRenameLabel loc NoncollapsibleParameterName NameIndex]"
    and ps: "paramSpans buf Rng False ext loc" by auto
  from ps have "coversExactly Rng [ext, separatorBetween ext loc, loc]"
    by (simp add: paramSpans_def)
  from coversExactly_concat[OF this assms(1)]
  have "str buf ext @ str buf (separatorBetween ext loc) @ str buf loc = str buf Rng" by simp
  with calls ps NoncollapsibleParam show ?thesis by simp
next
  case Selector
  with assms(2) show ?thesis by (auto simp: splitAndRenameLabel_def)
qed

theorem splitAndRenameLabel_spans_witness:
  "getEnd (mkRange 9 4) \<le> length ''func foo(a  b: Int)''
   \<and> splitAndRenameLabel ''func foo(a  b: Int)'' (mkRange 9 4) Param 0
       = Some [DoRenameLabel (mkRange 9 1) DeclArgumentLabel 0,
               DoRenameLabel (mkRange 11 2) ParameterName 0]
   \<and> paramSpans ''func foo(a  b: Int)'' (mkRange 9 4) True (mkRange 9 1) (mkRange 11 2)
   \<and> str ''func foo(a  b: Int)'' (mkRange 9 1)
       @ str ''func foo(a  b: Int)'' (separatorBetween (mkRange 9 1) (mkRange 11 2))
       @ str ''func foo(a  b: Int)'' (mkRange 11 2) = ''a  b''"
proof -
  have h1: "getEnd (mkRange 9 4) \<le> length ''func foo(a  b: Int)''"
    by (simp add: getEnd_def mkRange_def)
  have h2: "splitAndRenameLabel ''func foo(a  b: Int)'' (mkRange 9 4) Param 0
       = Some [DoRenameLabel (mkRange 9 1) DeclArgumentLabel 0,
               DoRenameLabel (mkRange 11 2) ParameterName 0]"
    by code_simp
  have h3: "str ''func foo(a  b: Int)'' (mkRange 9 4) = ''a  b''"
    by code_simp
  show ?thesis using splitAndRenameLabel_spans[OF h1 h2] h1 h2 h3 by simp
qed

text \<open>
  C8 as stated fails: the two sub-spans of the parameter span \<^verbatim>\<open>x y\<close> of
  \<^verbatim>\<open>subscript(x y: Int)\<close> leave the space between them uncovered, and for
  \<^verbatim>\<open>subscript(x: Int)\<close>, which has no boundary, the external label is the empty
  sub-span at the start and the whole span is the internal name.
\<close>

theorem splitAndRenameLabel_spans_counterexample:
  "splitAndRenameLabel ''subscript(x y: Int)'' (mkRange 10 3) NoncollapsibleParam 0
     = Some [DoRenameLabel (mkRange 10 1) DeclArgumentLabel 0,
             DoRenameLabel (mkRange 12 1) NoncollapsibleParameterName 0]
   \<and> \<not> coversExactly (mkRange 10 3) [mkRange 10 1, mkRange 12 1]
   \<and> splitAndRenameLabel ''subscript(x: Int)'' (mkRange 10 1) NoncollapsibleParam 0
     = Some [DoRenameLabel (mkRange 10 0) DeclArgumentLabel 0,
             DoRenameLabel (mkRange 10 1) NoncollapsibleParameterName 0]"
  by code_simp

section \<open>Renaming to the same name\<close>















section \<open>Fresh names\<close>

lemma uniqueNameFrom_smallest:
  "\<exists>k. uniqueNameFrom CurrentNames Name u = Name @ to_string k
       \<and> smallestFreeSuffix CurrentNames Name u k"
proof (induction CurrentNames Name u rule: uniqueNameFrom.induct)
  case (1 CurrentNames Name UniqueId)
  show ?case
  proof (cases "Name @ to_string UniqueId \<in> set CurrentNames")
    case True
    with 1 obtain k where k: "uniqueNameFrom CurrentNames Name (UniqueId + 1) = Name @ to_string k"
      and s: "smallestFreeSuffix CurrentNames Name (UniqueId + 1) k" by blast
    have "uniqueNameFrom CurrentNames Name UniqueId = Name @ to_string k"
      using True k by (subst uniqueNameFrom.simps) simp
    moreover have "smallestFreeSuffix CurrentNames Name UniqueId k"
      unfolding smallestFreeSuffix_def
    proof (intro conjI allI impI)
      show "UniqueId \<le> k" using s by (simp add: smallestFreeSuffix_def)
      show "Name @ to_string k \<notin> set CurrentNames" using s by (simp add: smallestFreeSuffix_def)
      fix j assume j: "UniqueId \<le> j \<and> j < k"
      show "Name @ to_string j \<in> set CurrentNames"
      proof (cases "j = UniqueId")
        case True
        then show ?thesis using \<open>Name @ to_string UniqueId \<in> set CurrentNames\<close> by simp
      next
        case False
        then have "UniqueId + 1 \<le> j \<and> j < k" using j by simp
        then show ?thesis using s by (simp add: smallestFreeSuffix_def)
      qed
    qed
    ultimately show ?thesis by blast
  next
    case False
    then have "uniqueNameFrom CurrentNames Name UniqueId = Name @ to_string UniqueId"
      by (subst uniqueNameFrom.simps) simp
    moreover have "smallestFreeSuffix CurrentNames Name UniqueId UniqueId"
      using False by (auto simp: smallestFreeSuffix_def)
    ultimately show ?thesis by blast
  qed
qed

lemma createUniqueName_fresh:
  assumes "createUniqueName S Name = Some Ident"
  shows "Ident \<notin> set (last (ScopedNames S))
       \<and> (if Name \<in> set (last (ScopedNames S))
          then \<exists>k. Ident = Name @ to_string k \<and> smallestFreeSuffix (last (ScopedNames S)) Name 1 k
          else Ident = Name)"
proof (cases "Name \<in> set (last (ScopedNames S))")
  case True
  with assms have i: "Ident = uniqueNameFrom (last (ScopedNames S)) Name 1"
    by (auto simp: createUniqueName_def Let_def split: if_splits)
  from uniqueNameFrom_smallest[of "last (ScopedNames S)" Name 1] obtain k where
    k: "uniqueNameFrom (last (ScopedNames S)) Name 1 = Name @ to_string k"
    and s: "smallestFreeSuffix (last (ScopedNames S)) Name 1 k" by blast
  have "Ident \<notin> set (last (ScopedNames S))" using i k s by (simp add: smallestFreeSuffix_def)
  then show ?thesis using True i k s by auto
next
  case False
  with assms have "Ident = Name" by (auto simp: createUniqueName_def Let_def split: if_splits)
  then show ?thesis using False by simp
qed

lemma last_insertScoped: "Scopes \<noteq> [] \<Longrightarrow> last (insertScoped Ident Scopes) = List.insert Ident (last Scopes)"
  by (simp add: insertScoped_def)

lemma assignUniqueName_cases:
  assumes "assignUniqueName getDeclName D Bound S = Some (Ident, S')"
  shows "(preferredName getDeclName D Bound = [] \<and> Ident = [] \<and> S' = S)
       \<or> (preferredName getDeclName D Bound \<noteq> [] \<and> ScopedNames S \<noteq> []
          \<and> createUniqueName S (baseNameFor (preferredName getDeclName D Bound)) = Some Ident
          \<and> S' = \<lparr>Names = fst (try_emplace D Ident (Names S)),
                   ScopedNames = insertScoped Ident (ScopedNames S)\<rparr>)"
proof (cases "preferredName getDeclName D Bound")
  case Nil
  with assms show ?thesis
    by (auto simp: assignUniqueName_def preferredName_def Let_def split: if_splits)
next
  case (Cons c rest)
  then have b: "baseNameFor (preferredName getDeclName D Bound)
      = (if hd (preferredName getDeclName D Bound) = CHR ''$''
         then ''val'' @ tl (preferredName getDeclName D Bound)
         else preferredName getDeclName D Bound)"
    by (simp add: baseNameFor_def)
  have p: "(if Bound = [] then getDeclName D else Bound) = preferredName getDeclName D Bound"
    by (simp add: preferredName_def)
  from assms Cons have
    "createUniqueName S (baseNameFor (preferredName getDeclName D Bound)) = Some Ident
     \<and> S' = \<lparr>Names = fst (try_emplace D Ident (Names S)),
              ScopedNames = insertScoped Ident (ScopedNames S)\<rparr>"
    unfolding assignUniqueName_def p b[symmetric] Let_def
    by (auto split: option.splits)
  moreover from this have "ScopedNames S \<noteq> []"
    by (auto simp: createUniqueName_def split: if_splits)
  ultimately show ?thesis using Cons by simp
qed

lemma smallestFreeSuffix_bound:
  assumes "smallestFreeSuffix CurrentNames Name u k"
  shows "k - u \<le> length CurrentNames"
proof -
  have "(\<lambda>j. Name @ to_string j) ` {u..<k} \<subseteq> set CurrentNames"
    using assms by (auto simp: smallestFreeSuffix_def)
  then have "card ((\<lambda>j. Name @ to_string j) ` {u..<k}) \<le> card (set CurrentNames)"
    by (rule card_mono[rotated]) simp
  moreover have "card ((\<lambda>j. Name @ to_string j) ` {u..<k}) = k - u"
    using card_image[OF inj_on_subset[OF suffixed_inj subset_UNIV], of Name "{u..<k}"] by simp
  ultimately show ?thesis using card_length[of CurrentNames] by simp
qed

lemma assignUniqueName_scope:
  assumes "assignUniqueName getDeclName D Bound S = Some (Ident, S')"
    and "preferredName getDeclName D Bound \<noteq> []"
  shows "Ident \<noteq> [] \<and> Ident \<notin> set (last (ScopedNames S))
       \<and> set (last (ScopedNames S')) = insert Ident (set (last (ScopedNames S)))
       \<and> butlast (ScopedNames S') = butlast (ScopedNames S)
       \<and> ScopedNames S' \<noteq> []"
proof -
  let ?P = "preferredName getDeclName D Bound"
  from assignUniqueName_cases[OF assms(1)] assms(2)
  have ne: "ScopedNames S \<noteq> []"
    and c: "createUniqueName S (baseNameFor ?P) = Some Ident"
    and s: "S' = \<lparr>Names = fst (try_emplace D Ident (Names S)),
                  ScopedNames = insertScoped Ident (ScopedNames S)\<rparr>" by auto
  from createUniqueName_fresh[OF c]
  have fresh: "Ident \<notin> set (last (ScopedNames S))"
    and rule: "if baseNameFor ?P \<in> set (last (ScopedNames S))
          then \<exists>k. Ident = baseNameFor ?P @ to_string k
                 \<and> smallestFreeSuffix (last (ScopedNames S)) (baseNameFor ?P) 1 k
          else Ident = baseNameFor ?P" by auto
  have bne: "baseNameFor ?P \<noteq> []" using assms(2)
    by (cases ?P) (auto simp: baseNameFor_def)
  have ine: "Ident \<noteq> []" using rule bne by (auto split: if_splits)
  have l: "set (last (ScopedNames S')) = insert Ident (set (last (ScopedNames S)))"
    using s ne by (simp add: last_insertScoped)
  have b: "butlast (ScopedNames S') = butlast (ScopedNames S)"
    using s by (simp add: insertScoped_def)
  have "ScopedNames S' \<noteq> []" using s by (simp add: insertScoped_def)
  then show ?thesis using ine fresh l b by simp
qed

lemma prepareParamNames_distinct:
  "prepareParamNames getDeclName Block AddIfMissing Params S = Some (Idents, S') \<Longrightarrow>
   ScopedNames S \<noteq> [] \<Longrightarrow>
   distinct (filter (\<lambda>i. i \<noteq> []) Idents)
   \<and> set (filter (\<lambda>i. i \<noteq> []) Idents) \<inter> set (last (ScopedNames S)) = {}
   \<and> set (last (ScopedNames S')) = set (last (ScopedNames S)) \<union> set (filter (\<lambda>i. i \<noteq> []) Idents)
   \<and> ScopedNames S' \<noteq> []"
proof (induction Params arbitrary: S Idents S')
  case Nil
  then show ?case by simp
next
  case (Cons PD rest)
  show ?case
  proof (cases "boundName Block PD \<noteq> [] \<or> AddIfMissing")
    case False
    then have "prepareParamNames getDeclName Block AddIfMissing rest S = Some (Idents, S')"
      using Cons.prems(1) by simp
    from Cons.IH[OF this Cons.prems(2)] show ?thesis .
  next
    case True
    with Cons.prems(1) obtain Ident S1 Ids where
      a: "assignUniqueName getDeclName PD (boundName Block PD) S = Some (Ident, S1)"
      and r: "prepareParamNames getDeclName Block AddIfMissing rest S1 = Some (Ids, S')"
      and i: "Idents = Ident # Ids"
      by (auto split: option.splits)
    show ?thesis
    proof (cases "preferredName getDeclName PD (boundName Block PD) = []")
      case True
      with assignUniqueName_cases[OF a] have "Ident = []" and "S1 = S" by auto
      with Cons.IH[OF r] Cons.prems(2) i show ?thesis by simp
    next
      case False
      from assignUniqueName_scope[OF a False]
      have ine: "Ident \<noteq> []" and f: "Ident \<notin> set (last (ScopedNames S))"
        and l: "set (last (ScopedNames S1)) = insert Ident (set (last (ScopedNames S)))"
        and ne1: "ScopedNames S1 \<noteq> []" by auto
      from Cons.IH[OF r ne1]
      have d: "distinct (filter (\<lambda>i. i \<noteq> []) Ids)"
        and dj: "set (filter (\<lambda>i. i \<noteq> []) Ids) \<inter> set (last (ScopedNames S1)) = {}"
        and u: "set (last (ScopedNames S')) = set (last (ScopedNames S1)) \<union> set (filter (\<lambda>i. i \<noteq> []) Ids)"
        and ne': "ScopedNames S' \<noteq> []" by auto
      show ?thesis using ine f l d dj u ne' i by auto
    qed
  qed
qed

text \<open>
  C7. When \<^verbatim>\<open>assignUniqueName\<close> names a declaration (its bound name, or else its declared
  name, is not empty), the identifier it returns is not empty and is none of the names of
  the current scope; it is the base name when that is not in the scope, and otherwise
  the base name followed by the numeral of the smallest counter from 1 on that gives a
  name not in the scope. The identifier is added to the current scope and the other
  scopes stay as they are, so that no later call made while the identifier is in the
  current scope returns it again: names synthesized one after the other in a scope are
  pairwise distinct (\<open>prepareParamNames_distinct\<close> states this for the loop of
  \<^verbatim>\<open>prepareNames\<close>).
\<close>

theorem assignUniqueName_fresh:
  assumes "assignUniqueName getDeclName D Bound S = Some (Ident, S')"
    and "preferredName getDeclName D Bound \<noteq> []"
  shows "Ident \<noteq> []
       \<and> Ident \<notin> set (last (ScopedNames S))
       \<and> set (last (ScopedNames S')) = insert Ident (set (last (ScopedNames S)))
       \<and> butlast (ScopedNames S') = butlast (ScopedNames S)
       \<and> (if baseNameFor (preferredName getDeclName D Bound) \<in> set (last (ScopedNames S))
          then \<exists>k. Ident = baseNameFor (preferredName getDeclName D Bound) @ to_string k
                 \<and> smallestFreeSuffix (last (ScopedNames S))
                      (baseNameFor (preferredName getDeclName D Bound)) 1 k
          else Ident = baseNameFor (preferredName getDeclName D Bound))
       \<and> (\<forall>D2 B2 S2 Ident2 S3.
            Ident \<in> set (last (ScopedNames S2)) \<longrightarrow>
            assignUniqueName getDeclName D2 B2 S2 = Some (Ident2, S3) \<longrightarrow> Ident2 \<noteq> Ident)"
proof -
  let ?P = "preferredName getDeclName D Bound"
  from assignUniqueName_cases[OF assms(1)] assms(2)
  have ne: "ScopedNames S \<noteq> []"
    and c: "createUniqueName S (baseNameFor ?P) = Some Ident"
    and s: "S' = \<lparr>Names = fst (try_emplace D Ident (Names S)),
                  ScopedNames = insertScoped Ident (ScopedNames S)\<rparr>" by auto
  from createUniqueName_fresh[OF c]
  have fresh: "Ident \<notin> set (last (ScopedNames S))"
    and rule: "if baseNameFor ?P \<in> set (last (ScopedNames S))
          then \<exists>k. Ident = baseNameFor ?P @ to_string k
                 \<and> smallestFreeSuffix (last (ScopedNames S)) (baseNameFor ?P) 1 k
          else Ident = baseNameFor ?P" by auto
  have bne: "baseNameFor ?P \<noteq> []" using assms(2)
    by (cases ?P) (auto simp: baseNameFor_def)
  have ine: "Ident \<noteq> []" using rule bne by (auto split: if_splits)
  have l: "set (last (ScopedNames S')) = insert Ident (set (last (ScopedNames S)))"
    using s ne by (simp add: last_insertScoped)
  have b: "butlast (ScopedNames S') = butlast (ScopedNames S)"
    using s by (simp add: insertScoped_def)
  have later: "\<forall>D2 B2 S2 Ident2 S3.
            Ident \<in> set (last (ScopedNames S2)) \<longrightarrow>
            assignUniqueName getDeclName D2 B2 S2 = Some (Ident2, S3) \<longrightarrow> Ident2 \<noteq> Ident"
  proof (intro allI impI)
    fix D2 B2 S2 Ident2 S3
    assume i: "Ident \<in> set (last (ScopedNames S2))"
      and a: "assignUniqueName getDeclName D2 B2 S2 = Some (Ident2, S3)"
    from assignUniqueName_cases[OF a] show "Ident2 \<noteq> Ident"
    proof
      assume "preferredName getDeclName D2 B2 = [] \<and> Ident2 = [] \<and> S3 = S2"
      then show ?thesis using ine by auto
    next
      assume "preferredName getDeclName D2 B2 \<noteq> [] \<and> ScopedNames S2 \<noteq> []
          \<and> createUniqueName S2 (baseNameFor (preferredName getDeclName D2 B2)) = Some Ident2
          \<and> S3 = \<lparr>Names = fst (try_emplace D2 Ident2 (Names S2)),
                   ScopedNames = insertScoped Ident2 (ScopedNames S2)\<rparr>"
      then have "Ident2 \<notin> set (last (ScopedNames S2))"
        using createUniqueName_fresh by blast
      then show ?thesis using i by auto
    qed
  qed
  show ?thesis using ine fresh l b rule later by simp
qed

theorem assignUniqueName_fresh_witness:
  "assignUniqueName closureParamNames 1 []
       \<lparr>Names = [], ScopedNames = [[''self''], [''str'', ''err'', ''str1'']]\<rparr>
     = Some (''str2'', \<lparr>Names = [(1, ''str2'')],
                         ScopedNames = [[''self''], [''str2'', ''str'', ''err'', ''str1'']]\<rparr>)
   \<and> preferredName closureParamNames 1 [] \<noteq> []
   \<and> ''str2'' \<notin> set (last (ScopedNames
          \<lparr>Names = [], ScopedNames = [[''self''], [''str'', ''err'', ''str1'']]\<rparr>))"
proof -
  have h1: "assignUniqueName closureParamNames 1 []
       \<lparr>Names = [], ScopedNames = [[''self''], [''str'', ''err'', ''str1'']]\<rparr>
     = Some (''str2'', \<lparr>Names = [(1, ''str2'')],
                         ScopedNames = [[''self''], [''str2'', ''str'', ''err'', ''str1'']]\<rparr>)"
    by code_simp
  have h2: "preferredName closureParamNames 1 [] \<noteq> []"
    by code_simp
  show ?thesis using assignUniqueName_fresh[OF h1 h2] h1 h2 by simp
qed

section \<open>Names of anonymous closure parameters\<close>

text \<open>
  C10. When the name \<^verbatim>\<open>assignUniqueName\<close> starts from (the bound name, or else the
  declared name) begins with \<^verbatim>\<open>$\<close>, the identifier is made by \<^verbatim>\<open>createUniqueName\<close> from
  \<^verbatim>\<open>val\<close> followed by the characters after the \<^verbatim>\<open>$\<close>: it is that base when the current
  scope does not hold it, and else the base followed by the numeral of the smallest
  counter from 1 on that is free; it is recorded for the declaration and added to the
  current scope. When there is no bound name and the declared name is empty, the
  empty identifier is returned and nothing is recorded.
\<close>

theorem assignUniqueName_dollar:
  "(preferredName getDeclName D Bound = CHR ''$'' # rest \<longrightarrow> ScopedNames S \<noteq> [] \<longrightarrow>
      (\<exists>Ident. assignUniqueName getDeclName D Bound S
                 = Some (Ident, \<lparr>Names = fst (try_emplace D Ident (Names S)),
                                 ScopedNames = insertScoped Ident (ScopedNames S)\<rparr>)
             \<and> createUniqueName S (''val'' @ rest) = Some Ident
             \<and> (if ''val'' @ rest \<in> set (last (ScopedNames S))
                then \<exists>k. Ident = ''val'' @ rest @ to_string k
                       \<and> smallestFreeSuffix (last (ScopedNames S)) (''val'' @ rest) 1 k
                else Ident = ''val'' @ rest)))
   \<and> (preferredName getDeclName D Bound = [] \<longrightarrow>
        assignUniqueName getDeclName D Bound S = Some ([], S))"
proof (intro conjI impI)
  assume p: "preferredName getDeclName D Bound = CHR ''$'' # rest" and ne: "ScopedNames S \<noteq> []"
  from ne obtain Ident where c: "createUniqueName S (''val'' @ rest) = Some Ident"
    by (auto simp: createUniqueName_def Let_def)
  have q: "(if Bound = [] then getDeclName D else Bound) = CHR ''$'' # rest"
    using p by (cases "Bound = []") (simp_all add: preferredName_def)
  have a: "assignUniqueName getDeclName D Bound S
      = Some (Ident, \<lparr>Names = fst (try_emplace D Ident (Names S)),
                      ScopedNames = insertScoped Ident (ScopedNames S)\<rparr>)"
    unfolding assignUniqueName_def q Let_def using c by simp
  from createUniqueName_fresh[OF c]
  have "if ''val'' @ rest \<in> set (last (ScopedNames S))
        then \<exists>k. Ident = ''val'' @ rest @ to_string k
               \<and> smallestFreeSuffix (last (ScopedNames S)) (''val'' @ rest) 1 k
        else Ident = ''val'' @ rest"
    by (auto split: if_splits)
  with a c show "\<exists>Ident. assignUniqueName getDeclName D Bound S
                 = Some (Ident, \<lparr>Names = fst (try_emplace D Ident (Names S)),
                                 ScopedNames = insertScoped Ident (ScopedNames S)\<rparr>)
             \<and> createUniqueName S (''val'' @ rest) = Some Ident
             \<and> (if ''val'' @ rest \<in> set (last (ScopedNames S))
                then \<exists>k. Ident = ''val'' @ rest @ to_string k
                       \<and> smallestFreeSuffix (last (ScopedNames S)) (''val'' @ rest) 1 k
                else Ident = ''val'' @ rest)"
    by blast
next
  assume "preferredName getDeclName D Bound = []"
  then show "assignUniqueName getDeclName D Bound S = Some ([], S)"
    by (auto simp: assignUniqueName_def preferredName_def Let_def split: if_splits)
qed

theorem assignUniqueName_dollar_witness:
  "preferredName closureParamNames 3 [] = CHR ''$'' # ''0''
   \<and> ScopedNames \<lparr>Names = [], ScopedNames = [[''val0'', ''x'']]\<rparr> \<noteq> []
   \<and> assignUniqueName closureParamNames 3 [] \<lparr>Names = [], ScopedNames = [[''val0'', ''x'']]\<rparr>
       = Some (''val01'', \<lparr>Names = [(3, ''val01'')], ScopedNames = [[''val01'', ''val0'', ''x'']]\<rparr>)
   \<and> assignUniqueName closureParamNames 3 [] \<lparr>Names = [], ScopedNames = [[''x'']]\<rparr>
       = Some (''val0'', \<lparr>Names = [(3, ''val0'')], ScopedNames = [[''val0'', ''x'']]\<rparr>)
   \<and> createUniqueName \<lparr>Names = [], ScopedNames = [[''val0'', ''x'']]\<rparr> (''val'' @ ''0'')
       = Some ''val01''
   \<and> preferredName closureParamNames 4 [] = []
   \<and> assignUniqueName closureParamNames 4 [] \<lparr>Names = [], ScopedNames = [[''x'']]\<rparr>
       = Some ([], \<lparr>Names = [], ScopedNames = [[''x'']]\<rparr>)"
proof -
  have h1: "preferredName closureParamNames 3 [] = CHR ''$'' # ''0''" by code_simp
  have h2: "ScopedNames \<lparr>Names = [], ScopedNames = [[''val0'', ''x'']]\<rparr> \<noteq> []" by simp
  have h3: "preferredName closureParamNames 4 [] = []" by code_simp
  have r1: "assignUniqueName closureParamNames 3 [] \<lparr>Names = [], ScopedNames = [[''val0'', ''x'']]\<rparr>
       = Some (''val01'', \<lparr>Names = [(3, ''val01'')], ScopedNames = [[''val01'', ''val0'', ''x'']]\<rparr>)"
    by code_simp
  have r2: "assignUniqueName closureParamNames 3 [] \<lparr>Names = [], ScopedNames = [[''x'']]\<rparr>
       = Some (''val0'', \<lparr>Names = [(3, ''val0'')], ScopedNames = [[''val0'', ''x'']]\<rparr>)"
    by code_simp
  from assignUniqueName_dollar[of closureParamNames 4 "[]" "[]"
         "\<lparr>Names = [], ScopedNames = [[''x'']]\<rparr>"] h3
  have r3: "assignUniqueName closureParamNames 4 [] \<lparr>Names = [], ScopedNames = [[''x'']]\<rparr>
       = Some ([], \<lparr>Names = [], ScopedNames = [[''x'']]\<rparr>)" by simp
  from assignUniqueName_dollar[of closureParamNames 3 "[]" "''0''"
         "\<lparr>Names = [], ScopedNames = [[''val0'', ''x'']]\<rparr>"] h1 h2
  obtain Ident where
    "assignUniqueName closureParamNames 3 [] \<lparr>Names = [], ScopedNames = [[''val0'', ''x'']]\<rparr>
       = Some (Ident, \<lparr>Names = fst (try_emplace 3 Ident []),
                       ScopedNames = insertScoped Ident [[''val0'', ''x'']]\<rparr>)"
    and c: "createUniqueName \<lparr>Names = [], ScopedNames = [[''val0'', ''x'']]\<rparr> (''val'' @ ''0'')
       = Some Ident"
    by auto
  with r1 have "Ident = ''val01''" by simp
  with c have r4: "createUniqueName \<lparr>Names = [], ScopedNames = [[''val0'', ''x'']]\<rparr>
       (''val'' @ ''0'') = Some ''val01''" by simp
  show ?thesis using h1 h2 h3 r1 r2 r3 r4 by simp
qed

section \<open>Strict matching\<close>

lemma thenCalls_Some:
  "thenCalls split rest = Some (m, calls) \<longleftrightarrow>
   (\<exists>es es'. split = Some es \<and> rest = Some (m, es') \<and> calls = es @ es')"
  by (auto simp: thenCalls_def split: option.splits)

lemma strictLoop_mismatch:
  "renameLabelsStrictLoop lexTok buf OldLabels RangeType Labels Idx = Some (m, calls) \<Longrightarrow>
   Idx + length Labels = length OldLabels \<Longrightarrow>
   m = (\<not> list_all2 (\<lambda>Label Expected.
            labelRangeMatches lexTok buf Label RangeType Expected = Some True)
          Labels (drop Idx OldLabels))"
proof (induction Labels arbitrary: Idx m calls)
  case Nil
  then show ?case by simp
next
  case (Cons Label rest)
  from Cons.prems(2) have il: "Idx < length OldLabels" by simp
  then have d: "drop Idx OldLabels = OldLabels ! Idx # drop (Suc Idx) OldLabels"
    by (simp add: Cons_nth_drop_Suc)
  have a: "at OldLabels Idx = Some (OldLabels ! Idx)" using il by (simp add: at_def)
  show ?case
  proof (cases "labelRangeMatches lexTok buf Label RangeType (OldLabels ! Idx)")
    case None
    with Cons.prems(1) a show ?thesis by simp
  next
    case (Some b)
    show ?thesis
    proof (cases b)
      case False
      with Some Cons.prems(1) a have "m = True" by simp
      then show ?thesis using Some False d by simp
    next
      case True
      with Some Cons.prems(1) a obtain es es' where
        r: "renameLabelsStrictLoop lexTok buf OldLabels RangeType rest (Suc Idx) = Some (m, es')"
        by (auto simp: thenCalls_Some)
      have "Suc Idx + length rest = length OldLabels" using Cons.prems(2) by simp
      from Cons.IH[OF r this] show ?thesis using Some True d by simp
    qed
  qed
qed

lemma renameLabels_strict_mismatch:
  assumes "renameLabels lexTok buf Old Labels FirstTrailing RangeType False = Some (m, calls)"
  shows "m = (\<not> strictLabelsMatch lexTok buf Old Labels RangeType)"
proof (cases "length (args Old) = length Labels")
  case False
  then have "\<not> strictLabelsMatch lexTok buf Old Labels RangeType"
    by (auto simp: strictLabelsMatch_def dest: list_all2_lengthD)
  moreover from assms False have "m = True"
    by (auto simp: renameLabels_def split: if_splits)
  ultimately show ?thesis by simp
next
  case True
  with assms have "renameLabelsStrictLoop lexTok buf (args Old) RangeType Labels 0 = Some (m, calls)"
    by (auto simp: renameLabels_def split: if_splits)
  from strictLoop_mismatch[OF this] True show ?thesis by (simp add: strictLabelsMatch_def)
qed

lemma strictOccurrence_region:
  assumes s: "strictOccurrence Old Resolved Config"
    and a: "addSyntacticRenameRanges lexTok isOperatorName buf Old Resolved Config = Some (RType, calls)"
    and n: "\<not> strictLabelsMatch lexTok buf Old (LabelRanges Resolved) (LabelType Resolved)"
  shows "RType = RegionMismatch"
proof -
  from s obtain Rng where r: "ResolvedRange Resolved = Some Rng"
    by (auto simp: strictOccurrence_def)
  from s have fl: "IsFunctionLike Config" by (simp add: strictOccurrence_def)
  from s have u: "Usage Config = Definition \<or> Usage Config = Reference"
    by (auto simp: strictOccurrence_def)
  from s have hl: "(case Usage Config of
                      Call \<Rightarrow> \<not> isOperatorName (base Old)
                    | Definition \<Rightarrow> True
                    | Reference \<Rightarrow> LabelType Resolved = Selector
                        \<or> (base Old = ''subscript'' \<and> IsFunctionLike Config)
                    | Unknown \<Rightarrow> LabelType Resolved \<noteq> NoLabel)"
    by (auto simp: strictOccurrence_def)
  from s have cs: "\<not> (Usage Config \<noteq> Definition \<and>
                               (Usage Config \<noteq> Reference \<or> (base Old = ''subscript'' \<and> IsFunctionLike Config)) \<and>
                               LabelType Resolved = CallArg)"
    by (auto simp: strictOccurrence_def)
  obtain bm bcs where b: "renameBaseStep buf Old Rng Config = (bm, bcs)"
    by (cases "renameBaseStep buf Old Rng Config")
  show ?thesis
  proof (cases bm)
    case True
    with a r b fl u show ?thesis
      by (auto simp: addSyntacticRenameRanges_def Let_def split: if_splits)
  next
    case False
    with a r b fl u hl cs obtain m ls where
      rl: "renameLabels lexTok buf Old (LabelRanges Resolved) (FirstTrailingLabel Resolved)
             (LabelType Resolved) False = Some (m, ls)"
      and t: "RType = (if m then (if Usage Config = Unknown then RegionUnmatched else RegionMismatch)
                      else getSyntacticRenameRegionType Resolved)"
      by (auto simp: addSyntacticRenameRanges_def Let_def split: if_splits option.splits bool.splits)
    from renameLabels_strict_mismatch[OF rl] n have "m" by simp
    with t u show ?thesis by auto
  qed
qed

lemma unknownOccurrence_region:
  assumes s: "unknownStrictOccurrence Resolved Config"
    and a: "addSyntacticRenameRanges lexTok isOperatorName buf Old Resolved Config = Some (RType, calls)"
    and n: "\<not> strictLabelsMatch lexTok buf Old (LabelRanges Resolved) (LabelType Resolved)"
  shows "RType = RegionUnmatched \<or> RType = RegionMismatch"
proof -
  from s obtain Rng where r: "ResolvedRange Resolved = Some Rng"
    by (auto simp: unknownStrictOccurrence_def)
  from s have fl: "IsFunctionLike Config" and u: "Usage Config = Unknown"
    and l: "LabelType Resolved \<noteq> NoLabel" and c: "LabelType Resolved \<noteq> CallArg"
    by (simp_all add: unknownStrictOccurrence_def)
  obtain bm bcs where b: "renameBaseStep buf Old Rng Config = (bm, bcs)"
    by (cases "renameBaseStep buf Old Rng Config")
  show ?thesis
  proof (cases "getSyntacticRenameRegionType Resolved = RegionActiveCode")
    case True
    with a r u show ?thesis by (simp add: addSyntacticRenameRanges_def Let_def)
  next
    case na: False
    show ?thesis
    proof (cases bm)
      case True
      with a r b fl u l na show ?thesis
        by (auto simp: addSyntacticRenameRanges_def Let_def split: if_splits)
    next
      case False
      with a r b fl u l c na obtain m ls where
        rl: "renameLabels lexTok buf Old (LabelRanges Resolved) (FirstTrailingLabel Resolved)
               (LabelType Resolved) False = Some (m, ls)"
        and t: "RType = (if m then RegionUnmatched else getSyntacticRenameRegionType Resolved)"
        by (auto simp: addSyntacticRenameRanges_def Let_def
            split: if_splits option.splits bool.splits)
      from renameLabels_strict_mismatch[OF rl] n have "m" by simp
      with t show ?thesis by simp
    qed
  qed
qed

lemma renameOccurrences_nth:
  "renameOccurrences lexTok isOperatorName buf occs = Some accepted \<Longrightarrow>
   length accepted = length occs
   \<and> (\<forall>j < length occs. renameOccurrence lexTok isOperatorName buf (occs ! j) = Some (accepted ! j))"
proof (induction occs arbitrary: accepted)
  case Nil
  then show ?case by simp
next
  case (Cons occ occs)
  from Cons.prems obtain a as where
    o: "renameOccurrence lexTok isOperatorName buf occ = Some a"
    and r: "renameOccurrences lexTok isOperatorName buf occs = Some as"
    and acc: "accepted = a # as"
    by (auto split: option.splits)
  from Cons.IH[OF r] have l: "length as = length occs"
    and n: "\<forall>j < length occs. renameOccurrence lexTok isOperatorName buf (occs ! j) = Some (as ! j)"
    by auto
  show ?case
  proof (intro conjI allI impI)
    show "length accepted = length (occ # occs)" using l acc by simp
    fix j assume "j < length (occ # occs)"
    then show "renameOccurrence lexTok isOperatorName buf ((occ # occs) ! j) = Some (accepted ! j)"
      using o n acc by (cases j) auto
  qed
qed

lemma renameOccurrence_mismatch_no_edits:
  "renameOccurrence lexTok isOperatorName buf occ = Some (RegionMismatch, edits) \<Longrightarrow> edits = None"
  by (cases occ) (auto simp: renameOccurrence_def split: option.splits if_splits)
text \<open>
  C2, as amended. In an operation that \<^verbatim>\<open>syntacticRename\<close> carries out, every
  occurrence is decided by \<^verbatim>\<open>renameOccurrence\<close> on that occurrence alone. For a
  definition or non-call reference of a function-like name (\<^term>\<open>strictOccurrence\<close>), the
  labels are matched strictly: unless the occurrence has as many labels as the old name
  and each label matches the old label at its position, the occurrence is reported as
  a mismatch and the edit consumer receives no replacement for it; so an occurrence that
  is not reported as a mismatch matches label by label. An occurrence of unknown usage
  whose labels are matched strictly (\<^term>\<open>unknownStrictOccurrence\<close>) and do not match is
  reported as unmatched, or as a mismatch, and never as a match. Whatever the
  occurrence, one reported as a mismatch comes with no replacement.
\<close>

theorem syntacticRename_strict:
  assumes "syntacticRename lexTok isOperatorName buf RenameLocs ResolvedLocs
             = Some (False, accepted)"
    and "i < length RenameLocs"
  shows "length accepted = length RenameLocs
       \<and> (\<forall>j < length RenameLocs.
            renameOccurrence lexTok isOperatorName buf (RenameLocs ! j, ResolvedLocs ! j)
              = Some (accepted ! j))
       \<and> (strictOccurrence (OldName (RenameLocs ! i)) (ResolvedLocs ! i) (RenameLocs ! i) \<longrightarrow>
          \<not> strictLabelsMatch lexTok buf (OldName (RenameLocs ! i))
               (LabelRanges (ResolvedLocs ! i)) (LabelType (ResolvedLocs ! i))
            \<longrightarrow> accepted ! i = (RegionMismatch, None))
       \<and> (unknownStrictOccurrence (ResolvedLocs ! i) (RenameLocs ! i) \<longrightarrow>
          \<not> strictLabelsMatch lexTok buf (OldName (RenameLocs ! i))
               (LabelRanges (ResolvedLocs ! i)) (LabelType (ResolvedLocs ! i))
            \<longrightarrow> fst (accepted ! i) = RegionUnmatched \<or> fst (accepted ! i) = RegionMismatch)
       \<and> (fst (accepted ! i) = RegionMismatch \<longrightarrow> snd (accepted ! i) = None)"
proof -
  from assms(1) have len: "length ResolvedLocs = length RenameLocs"
    and ro: "renameOccurrences lexTok isOperatorName buf (zip RenameLocs ResolvedLocs)
               = Some accepted"
    by (auto simp: syntacticRename_def split: if_splits)
  from renameOccurrences_nth[OF ro] len
  have l: "length accepted = length RenameLocs"
    and n: "\<forall>j < length RenameLocs.
            renameOccurrence lexTok isOperatorName buf (RenameLocs ! j, ResolvedLocs ! j)
              = Some (accepted ! j)"
    by auto
  obtain RType edits where ai: "accepted ! i = (RType, edits)" by (cases "accepted ! i")
  from n assms(2) ai
  have oi: "renameOccurrence lexTok isOperatorName buf (RenameLocs ! i, ResolvedLocs ! i)
              = Some (RType, edits)" by simp
  from oi obtain calls where
    ad: "addSyntacticRenameRanges lexTok isOperatorName buf (OldName (RenameLocs ! i))
           (ResolvedLocs ! i) (RenameLocs ! i) = Some (RType, calls)"
    by (auto simp: renameOccurrence_def split: option.splits if_splits)
  have m: "RType = RegionMismatch \<longrightarrow> edits = None"
    using oi renameOccurrence_mismatch_no_edits by blast
  have s: "RType = RegionMismatch"
    if "strictOccurrence (OldName (RenameLocs ! i)) (ResolvedLocs ! i) (RenameLocs ! i)"
      and "\<not> strictLabelsMatch lexTok buf (OldName (RenameLocs ! i))
               (LabelRanges (ResolvedLocs ! i)) (LabelType (ResolvedLocs ! i))"
    using strictOccurrence_region[OF that(1) ad that(2)] .
  have u: "RType = RegionUnmatched \<or> RType = RegionMismatch"
    if "unknownStrictOccurrence (ResolvedLocs ! i) (RenameLocs ! i)"
      and "\<not> strictLabelsMatch lexTok buf (OldName (RenameLocs ! i))
               (LabelRanges (ResolvedLocs ! i)) (LabelType (ResolvedLocs ! i))"
    using unknownOccurrence_region[OF that(1) ad that(2)] .
  show ?thesis
  proof (intro conjI impI)
    show "length accepted = length RenameLocs" by (rule l)
    show "\<forall>j < length RenameLocs.
            renameOccurrence lexTok isOperatorName buf (RenameLocs ! j, ResolvedLocs ! j)
              = Some (accepted ! j)" by (rule n)
    show "accepted ! i = (RegionMismatch, None)"
      if "strictOccurrence (OldName (RenameLocs ! i)) (ResolvedLocs ! i) (RenameLocs ! i)"
        and "\<not> strictLabelsMatch lexTok buf (OldName (RenameLocs ! i))
               (LabelRanges (ResolvedLocs ! i)) (LabelType (ResolvedLocs ! i))"
      using s[OF that] m ai by simp
    show "fst (accepted ! i) = RegionUnmatched \<or> fst (accepted ! i) = RegionMismatch"
      if "unknownStrictOccurrence (ResolvedLocs ! i) (RenameLocs ! i)"
        and "\<not> strictLabelsMatch lexTok buf (OldName (RenameLocs ! i))
               (LabelRanges (ResolvedLocs ! i)) (LabelType (ResolvedLocs ! i))"
      using u[OF that] ai by simp
    show "snd (accepted ! i) = None" if "fst (accepted ! i) = RegionMismatch"
      using that m ai by simp
  qed
qed

theorem syntacticRename_strict_witness:
  "syntacticRename identLexer noOperators sampleSource
       [sampleRename Definition, sampleRename Call] [sampleDefinitionLoc, sampleCallLoc]
     = Some (False,
         [(RegionMismatch, None),
          (RegionActiveCode,
             Some [(mkRange 29 3, ''bar''), (mkRange 33 1, ''x''),
                   (mkRange 39 1, []), (mkRange 40 2, [])])])
   \<and> 0 < length [sampleRename Definition, sampleRename Call]
   \<and> strictOccurrence (OldName (sampleRename Definition)) sampleDefinitionLoc
        (sampleRename Definition)
   \<and> \<not> strictLabelsMatch identLexer sampleSource (OldName (sampleRename Definition))
          (LabelRanges sampleDefinitionLoc) (LabelType sampleDefinitionLoc)
   \<and> unknownStrictOccurrence sampleInactiveLoc (sampleRename Unknown)
   \<and> map_option (map fst \<circ> snd)
        (syntacticRename identLexer noOperators sampleSource
           [sampleRename Unknown] [sampleInactiveLoc])
     = Some [RegionUnmatched]"
proof -
  have h1: "syntacticRename identLexer noOperators sampleSource
       [sampleRename Definition, sampleRename Call] [sampleDefinitionLoc, sampleCallLoc]
     = Some (False,
         [(RegionMismatch, None),
          (RegionActiveCode,
             Some [(mkRange 29 3, ''bar''), (mkRange 33 1, ''x''),
                   (mkRange 39 1, []), (mkRange 40 2, [])])])"
    by code_simp
  have h2: "0 < length [sampleRename Definition, sampleRename Call]" by simp
  have h3: "strictOccurrence (OldName ([sampleRename Definition, sampleRename Call] ! 0))
        ([sampleDefinitionLoc, sampleCallLoc] ! 0)
        ([sampleRename Definition, sampleRename Call] ! 0)"
    by code_simp
  have h4: "\<not> strictLabelsMatch identLexer sampleSource (OldName (sampleRename Definition))
          (LabelRanges sampleDefinitionLoc) (LabelType sampleDefinitionLoc)"
    by code_simp
  have u1: "map_option (map fst \<circ> snd)
        (syntacticRename identLexer noOperators sampleSource
           [sampleRename Unknown] [sampleInactiveLoc])
     = Some [RegionUnmatched]"
    by code_simp
  have u3: "unknownStrictOccurrence sampleInactiveLoc (sampleRename Unknown)"
    by code_simp
  show ?thesis using syntacticRename_strict[OF h1 h2] h1 h2 h3 h4 u1 u3 by simp
qed

text \<open>
  C2 as stated fails for an occurrence of unknown usage. The declaration
  \<^verbatim>\<open>func foo(a: Int, c: Int)\<close> in inactive code is matched strictly against
  \<^verbatim>\<open>foo(a:b:)\<close> and its second label does not match; it is reported as unmatched, not as
  a mismatch, and the consumer receives the replacements made before the mismatch.
\<close>

theorem syntacticRename_strict_counterexample:
  "syntacticRename identLexer noOperators sampleSource
       [sampleRename Unknown] [sampleInactiveLoc]
     = Some (False, [(RegionUnmatched, Some [(mkRange 5 3, ''bar''), (mkRange 9 1, ''x'')])])
   \<and> \<not> strictLabelsMatch identLexer sampleSource (OldName (sampleRename Unknown))
          (LabelRanges sampleInactiveLoc) (LabelType sampleInactiveLoc)
   \<and> unknownStrictOccurrence sampleInactiveLoc (sampleRename Unknown)"
  by code_simp


section \<open>Lenient matching\<close>

lemma scanFront_skipUntil:
  "i < length OldNames \<Longrightarrow>
   (scanFront test OldNames i = ScanAt k \<longrightarrow>
      skipUntil (\<lambda>l. test l = Some True) (drop i OldNames) i = Some (k, drop (Suc k) OldNames)
      \<and> k < length OldNames)
   \<and> (scanFront test OldNames i = ScanMismatch \<longrightarrow>
      skipUntil (\<lambda>l. test l = Some True) (drop i OldNames) i = None)"
proof (induction test OldNames i rule: scanFront.induct)
  case (1 test OldNames NameIndex)
  from "1.prems" have d: "drop NameIndex OldNames = OldNames ! NameIndex # drop (Suc NameIndex) OldNames"
    by (simp add: Cons_nth_drop_Suc)
  have a: "at OldNames NameIndex = Some (OldNames ! NameIndex)" using "1.prems" by (simp add: at_def)
  note u = scanFront.simps[of test OldNames NameIndex]
  show ?case
  proof (cases "test (OldNames ! NameIndex)")
    case None
    then have "scanFront test OldNames NameIndex = ScanStop" using a u by simp
    then show ?thesis by simp
  next
    case (Some b)
    show ?thesis
    proof (cases b)
      case True
      then have "scanFront test OldNames NameIndex = ScanAt NameIndex"
        using a Some u by simp
      then show ?thesis using Some True d "1.prems" by auto
    next
      case False
      show ?thesis
      proof (cases "Suc NameIndex \<ge> length OldNames")
        case True
        then have "scanFront test OldNames NameIndex = ScanMismatch"
          using a Some False u by simp
        moreover have "drop (Suc NameIndex) OldNames = []" using True by simp
        ultimately show ?thesis using Some False d by simp
      next
        case nl: False
        then have s: "scanFront test OldNames NameIndex = scanFront test OldNames (Suc NameIndex)"
          using a Some False u by simp
        have "Suc NameIndex < length OldNames" using nl by simp
        moreover have bf: "b = False" using False by simp
        ultimately show ?thesis
          using "1.IH"[OF a Some bf nl] s Some False d by simp
      qed
    qed
  qed
qed

lemma frontLoop_claimed:
  "frontLoop lexTok buf OldNames RangeType Labels i = Some r \<Longrightarrow>
   0 < i \<or> (Labels \<noteq> [] \<and> ByteLength (hd Labels) \<noteq> 0) \<Longrightarrow>
   frontPhaseClaimed lexTok buf RangeType Labels i (drop i OldNames) = Some r"
proof (induction Labels arbitrary: i r)
  case Nil
  then show ?case by simp
next
  case (Cons Label later)
  obtain m calls where r: "r = (m, calls)" by (cases r)
  show ?case
  proof (cases "ByteLength Label = 0")
    case True
    with Cons.prems(2) have ipos: "0 < i" by simp
    show ?thesis
    proof (cases "i \<ge> length OldNames \<or> OldNames ! i \<noteq> []")
      case skip: True
      then have "frontLoop lexTok buf OldNames RangeType later i = Some r"
        using Cons.prems(1) True ipos by simp
      from Cons.IH[OF this] ipos
      have "frontPhaseClaimed lexTok buf RangeType later i (drop i OldNames) = Some r" by simp
      moreover have "\<not> (\<exists>left'. drop i OldNames = [] # left')"
        using skip by (auto dest: nth_via_drop)
      ultimately show ?thesis using True
        by (auto split: list.splits)
    next
      case take: False
      then have il: "i < length OldNames" and e: "OldNames ! i = []" by auto
      then have d: "drop i OldNames = [] # drop (Suc i) OldNames"
        by (simp add: Cons_nth_drop_Suc[symmetric])
      from Cons.prems(1) True take r ipos obtain es es' where
        s: "splitAndRenameLabel buf Label RangeType i = Some es"
        and f: "frontLoop lexTok buf OldNames RangeType later (Suc i) = Some (m, es')"
        and c: "calls = es @ es'"
        by (auto simp: thenCalls_Some)
      from Cons.IH[OF f]
      have "frontPhaseClaimed lexTok buf RangeType later (Suc i) (drop (Suc i) OldNames) = Some (m, es')"
        by simp
      then show ?thesis using True d s c r by (simp add: thenCalls_def)
    qed
  next
    case False
    show ?thesis
    proof (cases "i \<ge> length OldNames")
      case True
      then have "r = (True, [])" using Cons.prems(1) False by simp
      then show ?thesis using True False by simp
    next
      case il: False
      then have il': "i < length OldNames" by simp
      note sc = scanFront_skipUntil[OF il', of "labelRangeMatches lexTok buf Label RangeType"]
      show ?thesis
      proof (cases "scanFront (labelRangeMatches lexTok buf Label RangeType) OldNames i")
        case ScanStop
        then show ?thesis using Cons.prems(1) False il by simp
      next
        case ScanMismatch
        then have "r = (True, [])" using Cons.prems(1) False il by simp
        then show ?thesis using sc ScanMismatch False by simp
      next
        case (ScanAt k)
        with Cons.prems(1) False il r obtain es es' where
          s: "splitAndRenameLabel buf Label RangeType k = Some es"
          and f: "frontLoop lexTok buf OldNames RangeType later (Suc k) = Some (m, es')"
          and c: "calls = es @ es'"
          by (auto simp: thenCalls_Some)
        from Cons.IH[OF f]
        have "frontPhaseClaimed lexTok buf RangeType later (Suc k) (drop (Suc k) OldNames) = Some (m, es')"
          by simp
        then show ?thesis using sc ScanAt False s c r by (simp add: thenCalls_def)
      qed
    qed
  qed
qed


lemma isEmptyLabel_test: "(\<lambda>l. isEmptyLabel l = Some True) = (\<lambda>l. l = [])"
  by (simp add: isEmptyLabel_def)

lemma frontLoop_frontPhase:
  assumes "frontLoop lexTok buf OldNames RangeType Labels 0 = Some r"
  shows "frontPhase lexTok buf RangeType Labels OldNames = Some r"
proof (cases Labels)
  case Nil
  with assms show ?thesis by simp
next
  case (Cons Label later)
  obtain m calls where r: "r = (m, calls)" by (cases r)
  show ?thesis
  proof (cases "ByteLength Label = 0")
    case False
    with Cons have "0 < (0::nat) \<or> (Labels \<noteq> [] \<and> ByteLength (hd Labels) \<noteq> 0)" by simp
    from frontLoop_claimed[OF assms this] show ?thesis using Cons False by simp
  next
    case True
    show ?thesis
    proof (cases "OldNames = []")
      case True
      then have "scanFront isEmptyLabel OldNames 0 = ScanStop"
        by (simp add: scanFront.simps at_def)
      with assms Cons \<open>ByteLength Label = 0\<close> show ?thesis by simp
    next
      case False
      then have l: "0 < length OldNames" by simp
      note sc = scanFront_skipUntil[OF l, of isEmptyLabel, unfolded isEmptyLabel_test, simplified]
      show ?thesis
      proof (cases "scanFront isEmptyLabel OldNames 0")
        case ScanStop
        with assms Cons True show ?thesis by simp
      next
        case ScanMismatch
        with assms Cons True have "r = (True, [])" by simp
        then show ?thesis using sc ScanMismatch Cons True by simp
      next
        case (ScanAt k)
        with assms Cons True r obtain es es' where
          s: "splitAndRenameLabel buf Label RangeType k = Some es"
          and f: "frontLoop lexTok buf OldNames RangeType later (Suc k) = Some (m, es')"
          and c: "calls = es @ es'"
          by (auto simp: thenCalls_Some)
        from frontLoop_claimed[OF f]
        have "frontPhaseClaimed lexTok buf RangeType later (Suc k) (drop (Suc k) OldNames) = Some (m, es')"
          by simp
        then show ?thesis using sc ScanAt Cons True s c r by (simp add: thenCalls_def)
      qed
    qed
  qed
qed

lemma skipUntil_pos:
  "skipUntil test ls pos = None \<longleftrightarrow> skipUntil test ls pos' = None"
  "skipUntil test ls pos = Some (n, rest) \<Longrightarrow> \<exists>n'. skipUntil test ls pos' = Some (n', rest)"
  by (induction ls arbitrary: pos pos') auto

lemma scanBack_skipUntil:
  "OldNames \<noteq> [] \<Longrightarrow>
   (scanBack test OldNames = ScanAt Found \<longrightarrow>
      Found \<noteq> [] \<and> (\<exists>n. skipUntil (\<lambda>l. test l = Some True) (rev OldNames) 0
                           = Some (n, rev (butlast Found))))
   \<and> (scanBack test OldNames = ScanMismatch \<longrightarrow>
      skipUntil (\<lambda>l. test l = Some True) (rev OldNames) 0 = None)"
proof (induction test OldNames rule: scanBack.induct)
  case (1 test OldNames)
  note u = scanBack.simps[of test OldNames]
  from "1.prems" have "rev (butlast OldNames @ [last OldNames]) = rev OldNames"
    by simp
  then have rv: "rev OldNames = last OldNames # rev (butlast OldNames)"
    by simp
  show ?case
  proof (cases "test (last OldNames)")
    case None
    then have "scanBack test OldNames = ScanStop" using u "1.prems" by simp
    then show ?thesis by simp
  next
    case (Some b)
    show ?thesis
    proof (cases b)
      case True
      then have sa: "scanBack test OldNames = ScanAt OldNames" using u "1.prems" Some by simp
      have "skipUntil (\<lambda>l. test l = Some True) (last OldNames # rev (butlast OldNames)) 0
          = Some (0, rev (butlast OldNames))"
        using Some True by simp
      then have "skipUntil (\<lambda>l. test l = Some True) (rev OldNames) 0
          = Some (0, rev (butlast OldNames))"
        by (simp only: rv)
      then show ?thesis using sa "1.prems" by auto
    next
      case False
      then have bf: "b = False" by simp
      show ?thesis
      proof (cases "butlast OldNames = []")
        case True
        then have sm: "scanBack test OldNames = ScanMismatch" using u "1.prems" Some False by simp
        have "skipUntil (\<lambda>l. test l = Some True) (last OldNames # rev (butlast OldNames)) 0
            = None"
          using Some False True by simp
        then have "skipUntil (\<lambda>l. test l = Some True) (rev OldNames) 0 = None"
          by (simp only: rv)
        then show ?thesis using sm by simp
      next
        case ne: False
        then have s: "scanBack test OldNames = scanBack test (butlast OldNames)"
          using u "1.prems" Some False by simp
        note ih = "1.IH"[OF "1.prems" Some bf ne ne]
        have "skipUntil (\<lambda>l. test l = Some True) (last OldNames # rev (butlast OldNames)) 0
            = skipUntil (\<lambda>l. test l = Some True) (rev (butlast OldNames)) (Suc 0)"
          using Some False by simp
        then have k: "skipUntil (\<lambda>l. test l = Some True) (rev OldNames) 0
            = skipUntil (\<lambda>l. test l = Some True) (rev (butlast OldNames)) (Suc 0)"
          by (simp only: rv)
        show ?thesis
        proof (rule conjI)
          show "scanBack test OldNames = ScanAt Found \<longrightarrow>
                Found \<noteq> [] \<and> (\<exists>n. skipUntil (\<lambda>l. test l = Some True) (rev OldNames) 0
                           = Some (n, rev (butlast Found)))"
          proof
            assume "scanBack test OldNames = ScanAt Found"
            with s ih obtain n where nn: "Found \<noteq> []"
              and sk: "skipUntil (\<lambda>l. test l = Some True) (rev (butlast OldNames)) 0
                         = Some (n, rev (butlast Found))" by auto
            from skipUntil_pos(2)[OF sk, of "Suc 0"] obtain n' where
              "skipUntil (\<lambda>l. test l = Some True) (rev (butlast OldNames)) (Suc 0)
                 = Some (n', rev (butlast Found))" by blast
            with k have "skipUntil (\<lambda>l. test l = Some True) (rev OldNames) 0
                 = Some (n', rev (butlast Found))" by simp
            with nn show "Found \<noteq> [] \<and> (\<exists>n. skipUntil (\<lambda>l. test l = Some True) (rev OldNames) 0
                           = Some (n, rev (butlast Found)))"
              by blast
          qed
        next
          show "scanBack test OldNames = ScanMismatch \<longrightarrow>
                skipUntil (\<lambda>l. test l = Some True) (rev OldNames) 0 = None"
          proof
            assume "scanBack test OldNames = ScanMismatch"
            with s ih have "skipUntil (\<lambda>l. test l = Some True) (rev (butlast OldNames)) 0 = None"
              by simp
            then have "skipUntil (\<lambda>l. test l = Some True) (rev (butlast OldNames)) (Suc 0) = None"
              using skipUntil_pos(1)[of "\<lambda>l. test l = Some True" "rev (butlast OldNames)" 0 "Suc 0"]
              by simp
            with k show "skipUntil (\<lambda>l. test l = Some True) (rev OldNames) 0 = None"
              by simp
          qed
        qed
      qed
    qed
  qed
qed

lemma trailingLoop_backPhase:
  "trailingLoop lexTok buf (rev (enumerate 0 Trailing)) OldNames = Some (b, left, es) \<Longrightarrow>
   \<exists>left'. backPhase lexTok buf (rev Trailing) (rev OldNames) = Some (b, left', es)
          \<and> (\<not> b \<longrightarrow> left' = rev left)"
proof (induction Trailing arbitrary: OldNames b left es rule: rev_induct)
  case Nil
  then show ?case by simp
next
  case (snoc Label earlier)
  have en: "rev (enumerate 0 (earlier @ [Label]))
      = (length earlier, Label) # rev (enumerate 0 earlier)"
    by (simp add: enumerate_append_eq)
  have rv: "rev (earlier @ [Label]) = Label # rev earlier" by simp
  have e0: "(rev earlier = []) = (length earlier = 0)" by simp
  note p = snoc.prems[unfolded en]
  show ?case
  proof (cases "ByteLength Label = 0 \<and> length earlier = 0")
    case True
    then have ee: "earlier = []" by simp
    from p True ee have ne: "OldNames \<noteq> []" and r: "b = False \<and> left = butlast OldNames \<and> es = []"
      by (auto split: if_splits)
    have "rev (tl (rev OldNames)) = butlast OldNames"
      using butlast_rev[of "rev OldNames"] by simp
    then have "tl (rev OldNames) = rev (butlast OldNames)"
      by (simp add: rev_swap)
    then show ?thesis using True ee r by simp
  next
    case False
    define test where "test = (if ByteLength Label = 0 then isEmptyLabel
                               else labelRangeMatches lexTok buf Label Selector)"
    have t: "(\<lambda>Expected. if ByteLength Label = 0 then Expected = []
                 else labelRangeMatches lexTok buf Label Selector Expected = Some True)
           = (\<lambda>l. test l = Some True)"
      by (auto simp: test_def isEmptyLabel_def)
    have bp: "backPhase lexTok buf (rev (earlier @ [Label])) (rev OldNames)
        = (case skipUntil (\<lambda>l. test l = Some True) (rev OldNames) 0 of
             None \<Rightarrow> Some (True, [], [])
           | Some (n, oldRev') \<Rightarrow>
               (case splitAndRenameLabel buf Label Selector (length oldRev') of
                  None \<Rightarrow> None
                | Some es \<Rightarrow>
                    (case backPhase lexTok buf (rev earlier) oldRev' of
                       None \<Rightarrow> None
                     | Some (b, left, es') \<Rightarrow> Some (b, left, es @ es'))))"
      using False unfolding rv t[symmetric] by auto
    have tl: "trailingLoop lexTok buf ((length earlier, Label) # rev (enumerate 0 earlier)) OldNames
        = (if OldNames = [] then Some (True, OldNames, [])
           else case scanBack test OldNames of
                  ScanStop \<Rightarrow> None
                | ScanMismatch \<Rightarrow> Some (True, [], [])
                | ScanAt Found \<Rightarrow>
                    (case splitAndRenameLabel buf Label Selector (length Found - 1) of
                       None \<Rightarrow> None
                     | Some es \<Rightarrow>
                         (case trailingLoop lexTok buf (rev (enumerate 0 earlier)) (butlast Found) of
                            None \<Rightarrow> None
                          | Some (b, Names', es') \<Rightarrow> Some (b, Names', es @ es'))))"
      using False by (auto simp: test_def)
    show ?thesis
    proof (cases "OldNames = []")
      case True
      with p tl have "b = True \<and> es = []" by simp
      then show ?thesis using bp True by simp
    next
      case ne: False
      note sb = scanBack_skipUntil[OF ne, of test]
      show ?thesis
      proof (cases "scanBack test OldNames")
        case ScanStop
        with p tl ne show ?thesis by simp
      next
        case ScanMismatch
        with p tl ne have "b = True \<and> es = []" by simp
        then show ?thesis using bp sb ScanMismatch by simp
      next
        case (ScanAt Found)
        with sb obtain n where fne: "Found \<noteq> []"
          and sk: "skipUntil (\<lambda>l. test l = Some True) (rev OldNames) 0
                     = Some (n, rev (butlast Found))" by auto
        from p tl ne ScanAt obtain es1 es2 where
          s: "splitAndRenameLabel buf Label Selector (length Found - 1) = Some es1"
          and r: "trailingLoop lexTok buf (rev (enumerate 0 earlier)) (butlast Found)
                    = Some (b, left, es2)"
          and c: "es = es1 @ es2"
          by (auto split: option.splits)
        from snoc.IH[OF r] obtain left' where
          ih: "backPhase lexTok buf (rev earlier) (rev (butlast Found)) = Some (b, left', es2)"
          and lf: "\<not> b \<longrightarrow> left' = rev left" by auto
        have "length (rev (butlast Found)) = length Found - 1" by simp
        then show ?thesis using bp sk s ih lf c by simp
      qed
    qed
  qed
qed

text \<open>
  C1, as amended. Whenever the lenient matcher runs to its end, its result (mismatch
  or not, and the hook calls in order) is that of two phases: first the trailing-closure
  labels, in reverse syntactic order, against the old labels from the back, where a
  label takes the nearest old label it matches, an empty label other than that of the
  first trailing closure takes the nearest empty old label, and the unlabelled first
  trailing closure takes the last old label left; then the other labels against the old
  labels that are left, from the front. In the front phase the first label, when empty,
  takes the first empty old label left and is a mismatch without one; a later empty
  label takes the next old label if that is empty and is skipped otherwise; a label that
  is not empty takes the first old label left that it matches, and the occurrence is a
  mismatch when there is none.
\<close>

theorem renameLabelsLenient_two_phases:
  assumes "renameLabels lexTok buf Old Labels FirstTrailing RangeType True = Some r"
  shows "lenientTwoPhases lexTok buf Old Labels FirstTrailing RangeType = Some r"
proof (cases FirstTrailing)
  case None
  with assms have "frontLoop lexTok buf (args Old) RangeType Labels 0 = Some r"
    by (simp add: renameLabels_def renameLabelsLenient_def)
  from frontLoop_frontPhase[OF this] show ?thesis using None
    by (cases r) (simp add: lenientTwoPhases_def twoPhases_def thenCalls_def)
next
  case (Some n)
  with assms have le: "n \<le> length Labels"
    by (auto simp: renameLabels_def renameLabelsLenient_def split: if_splits)
  from assms Some le obtain b left es where
    t: "trailingLoop lexTok buf (rev (enumerate 0 (drop n Labels))) (args Old) = Some (b, left, es)"
    and res: "(if b then Some (True, es)
               else thenCalls (Some es) (frontLoop lexTok buf left RangeType (take n Labels) 0))
              = Some r"
    by (auto simp: renameLabels_def renameLabelsLenient_def Let_def
             split: option.splits bool.splits if_splits)
  from trailingLoop_backPhase[OF t] obtain left' where
    bp: "backPhase lexTok buf (rev (drop n Labels)) (rev (args Old)) = Some (b, left', es)"
    and lf: "\<not> b \<longrightarrow> left' = rev left" by auto
  show ?thesis
  proof (cases b)
    case True
    with res have "r = (True, es)" by simp
    then show ?thesis using bp True Some by (simp add: lenientTwoPhases_def twoPhases_def)
  next
    case False
    with res obtain m es' where
      f: "frontLoop lexTok buf left RangeType (take n Labels) 0 = Some (m, es')"
      and r: "r = (m, es @ es')"
      by (cases r) (auto simp: thenCalls_Some)
    from frontLoop_frontPhase[OF f] lf False
    have "frontPhase lexTok buf RangeType (take n Labels) (rev left') = Some (m, es')" by simp
    then show ?thesis using bp False Some r
      by (simp add: lenientTwoPhases_def twoPhases_def thenCalls_def)
  qed
qed

theorem renameLabelsLenient_two_phases_witness:
  "renameLabels identLexer ''foo(a: 1) { } second: { }''
       \<lparr>base = ''foo'', args = [''a'', ''first'', ''second'']\<rparr>
       [mkRange 4 3, mkRange 10 0, mkRange 14 6] (Some 1) CallArg True
     = Some (False,
         [DoRenameLabel (mkRange 14 6) SelectorArgumentLabel 2,
          DoRenameLabel (mkRange 4 1) CallArgumentLabel 0,
          DoRenameLabel (mkRange 5 2) CallArgumentColon 0])
   \<and> lenientTwoPhases identLexer ''foo(a: 1) { } second: { }''
       \<lparr>base = ''foo'', args = [''a'', ''first'', ''second'']\<rparr>
       [mkRange 4 3, mkRange 10 0, mkRange 14 6] (Some 1) CallArg
     = Some (False,
         [DoRenameLabel (mkRange 14 6) SelectorArgumentLabel 2,
          DoRenameLabel (mkRange 4 1) CallArgumentLabel 0,
          DoRenameLabel (mkRange 5 2) CallArgumentColon 0])"
proof -
  have h: "renameLabels identLexer ''foo(a: 1) { } second: { }''
       \<lparr>base = ''foo'', args = [''a'', ''first'', ''second'']\<rparr>
       [mkRange 4 3, mkRange 10 0, mkRange 14 6] (Some 1) CallArg True
     = Some (False,
         [DoRenameLabel (mkRange 14 6) SelectorArgumentLabel 2,
          DoRenameLabel (mkRange 4 1) CallArgumentLabel 0,
          DoRenameLabel (mkRange 5 2) CallArgumentColon 0])"
    by code_simp
  show ?thesis using renameLabelsLenient_two_phases[OF h] h by simp
qed

text \<open>
  C1 as stated fails at the first label of the front phase. For the old name
  \<^verbatim>\<open>foo(a:_:b:)\<close> and the call \<^verbatim>\<open>foo(1, b: 2)\<close> the empty first label is not skipped
  against the old label \<^verbatim>\<open>a\<close> but takes the empty old label at position 1; for the old
  name \<^verbatim>\<open>foo(a:)\<close> and the call \<^verbatim>\<open>foo(1)\<close> the occurrence is a mismatch, where the
  claim has the empty label skipped.
\<close>

theorem renameLabelsLenient_counterexample:
  "renameLabels identLexer ''foo(1, b: 2)'' \<lparr>base = ''foo'', args = [''a'', [], ''b'']\<rparr>
       [mkRange 4 0, mkRange 7 3] None CallArg True
     = Some (False,
         [DoRenameLabel (mkRange 4 0) CallArgumentCombined 1,
          DoRenameLabel (mkRange 7 1) CallArgumentLabel 2,
          DoRenameLabel (mkRange 8 2) CallArgumentColon 2])
   \<and> lenientAsClaimed identLexer ''foo(1, b: 2)'' \<lparr>base = ''foo'', args = [''a'', [], ''b'']\<rparr>
       [mkRange 4 0, mkRange 7 3] None CallArg
     = Some (False,
         [DoRenameLabel (mkRange 7 1) CallArgumentLabel 2,
          DoRenameLabel (mkRange 8 2) CallArgumentColon 2])
   \<and> renameLabels identLexer ''foo(1)'' \<lparr>base = ''foo'', args = [''a'']\<rparr>
       [mkRange 4 0] None CallArg True = Some (True, [])
   \<and> lenientAsClaimed identLexer ''foo(1)'' \<lparr>base = ''foo'', args = [''a'']\<rparr>
       [mkRange 4 0] None CallArg = Some (False, [])"
  by code_simp

section \<open>Completion-handler detection\<close>

lemma anyResultParam_ex: "anyResultParam Ps = list_ex (\<lambda>P. isResult (fst P)) Ps"
  by (induction Ps) (simp_all add: getPlainType_def)

lemma detectResult_cases:
  assumes "detectResult isUninhabited Ps D0 = Some D"
  shows "(case singleResult Ps of
            Some E \<Rightarrow> D = D0\<lparr>Type := RESULT, HasError := \<not> isUninhabited E\<rparr>
          | None \<Rightarrow> D = D0)"
  using assms
  by (auto simp: detectResult_def singleResult_def getPlainType_def
      split: list.splits Type.splits bool.splits prod.splits if_splits option.splits)

lemma isErrorType_optional:
  "isErrorType conformsToError (getOptionalObjectType T) = isOptionalError conformsToError T"
  by (cases T) (simp_all add: isErrorType_def isOptionalError_def)

lemma detect_described:
  assumes "detectResult isUninhabited Ps (defaultDesc\<lparr>Handler := Some H\<rparr>) = Some D0"
    and "D = detectParams conformsToError Ps D0"
  shows "(Type D, HasError D) = describedParams conformsToError isUninhabited Ps"
    and "Type D \<noteq> INVALID \<longrightarrow> Handler D = Some H"
  using detectResult_cases[OF assms(1)] assms(2)
  by (auto simp: detectParams_def describedParams_def defaultDesc_def anyResultParam_ex
      isErrorType_optional Let_def split: option.splits)

lemma get_described:
  assumes "get isName conformsToError isUninhabited (VarDecl Name Ty) RequireName = Some D"
  shows "(Type D, HasError D) =
           (if RequireName \<and> \<not> isName Name then (INVALID, False)
            else (case Ty of
                    FunctionType Ps VoidType \<Rightarrow> describedParams conformsToError isUninhabited Ps
                  | _ \<Rightarrow> (INVALID, False)))"
    and "Type D \<noteq> INVALID \<longrightarrow> Handler D = Some (VarDecl Name Ty)"
proof -
  let ?H = "VarDecl Name Ty"
  let ?D0 = "defaultDesc\<lparr>Handler := Some ?H\<rparr>"
  have n: "getNameStr ?D0 = Some Name" by (simp add: getNameStr_def)
  have t: "getType ?D0 = Some Ty" by (simp add: getType_def)
  have g: "get isName conformsToError isUninhabited ?H RequireName =
             (if RequireName \<and> \<not> isName Name then Some defaultDesc
              else (case getAsAnyFunctionType Ty of
                      None \<Rightarrow> Some defaultDesc
                    | Some (HandlerParams, Result) \<Rightarrow>
                        if \<not> isVoid Result then Some defaultDesc
                        else (case detectResult isUninhabited HandlerParams ?D0 of
                                None \<Rightarrow> None
                              | Some D \<Rightarrow> Some (detectParams conformsToError HandlerParams D))))"
    by (simp add: get_def n t Let_def)
  show "(Type D, HasError D) =
           (if RequireName \<and> \<not> isName Name then (INVALID, False)
            else (case Ty of
                    FunctionType Ps VoidType \<Rightarrow> describedParams conformsToError isUninhabited Ps
                  | _ \<Rightarrow> (INVALID, False)))"
  proof (cases "RequireName \<and> \<not> isName Name")
    case True
    with assms g show ?thesis by (auto simp: defaultDesc_def)
  next
    case False
    show ?thesis
    proof (cases Ty)
      case (FunctionType Ps Result)
      show ?thesis
      proof (cases "isVoid Result")
        case True
        then have r: "Result = VoidType" by (cases Result) simp_all
        from assms g False FunctionType True obtain D0
          where d0: "detectResult isUninhabited Ps ?D0 = Some D0"
            and d: "D = detectParams conformsToError Ps D0"
          by (auto split: option.splits)
        from detect_described(1)[OF d0 d] False FunctionType r show ?thesis by auto
      next
        case nv: False
        then have "Result \<noteq> VoidType" by auto
        with assms g False FunctionType nv show ?thesis
          by (cases Result) (auto simp: defaultDesc_def)
      qed
    qed (use assms g False in \<open>auto simp: defaultDesc_def\<close>)
  qed
  show "Type D \<noteq> INVALID \<longrightarrow> Handler D = Some ?H"
  proof (cases "RequireName \<and> \<not> isName Name")
    case True
    with assms g show ?thesis by (auto simp: defaultDesc_def)
  next
    case False
    show ?thesis
    proof (cases Ty)
      case (FunctionType Ps Result)
      show ?thesis
      proof (cases "isVoid Result")
        case True
        from assms g False FunctionType True obtain D0
          where d0: "detectResult isUninhabited Ps ?D0 = Some D0"
            and d: "D = detectParams conformsToError Ps D0"
          by (auto split: option.splits)
        from detect_described(2)[OF d0 d] show ?thesis .
      next
        case nv: False
        with assms g False FunctionType nv show ?thesis
          by (auto simp: defaultDesc_def)
      qed
    qed (use assms g False in \<open>auto simp: defaultDesc_def\<close>)
  qed
qed

lemma paramDesc_sel:
  "Type (paramDesc D F I) = Type D" "HasError (paramDesc D F I) = HasError D"
  "Handler (paramDesc D F I) = Handler D" "Index (paramDesc D F I) = I"
  "Func (paramDesc D F I) = Some F"
  by (simp_all add: paramDesc_def)

text \<open>
  C3, as amended. Whenever detection on a function declaration returns, the kind and the
  error flag of the descriptor are these. The descriptor is invalid if the function is
  already \<^verbatim>\<open>async\<close> or throws, has no parameter, or does not return \<^verbatim>\<open>Void\<close>; the candidate
  handler is the last parameter; the descriptor is invalid if the candidate is an
  autoclosure, if a completion-like name is required and the candidate has none, or if
  the candidate's type is not a \<^verbatim>\<open>Void\<close>-returning function type. If the handler type has
  exactly one parameter and its type is the \<^verbatim>\<open>Result\<close> of two generic arguments, the kind is
  \<^term>\<open>RESULT\<close>, with an error iff the second generic argument is inhabited. Otherwise, if
  any parameter of the handler type is a \<^verbatim>\<open>Result\<close>, the descriptor is invalid. Otherwise
  the kind is \<^term>\<open>PARAMS\<close>, with an error iff the handler type has a last parameter whose
  type is an optional wrapping a type that conforms to \<^verbatim>\<open>Error\<close>. A valid descriptor holds
  the last parameter as its handler, that parameter's index, and the function.
\<close>

theorem find_desc_described:
  assumes "find_desc isName conformsToError isUninhabited (Some F) RequireAttributeOrName = Some D"
  shows "(Type D, HasError D) =
           describedHandler isName conformsToError isUninhabited F RequireAttributeOrName
       \<and> (isValid D \<longrightarrow> Handler D = Some (asValueDecl (candidate F))
                      \<and> Index D = int (length (Parameters F)) - 1
                      \<and> Func D = Some F)"
proof (cases "hasAsync F \<or> hasThrows F \<or> Parameters F = [] \<or> \<not> isVoid (ResultInterfaceType F)
              \<or> isAutoClosure (candidate F)")
  case True
  have v: "\<not> isVoid (ResultInterfaceType F) \<longleftrightarrow> ResultInterfaceType F \<noteq> VoidType"
    by (cases "ResultInterfaceType F") simp_all
  have l: "Parameters F \<noteq> [] \<Longrightarrow>
           Parameters F ! nat (int (length (Parameters F)) - 1) = candidate F"
    by (simp add: candidate_def last_conv_nth nat_diff_distrib')
  from True assms l have "D = defaultParamDesc"
    by (auto simp: find_desc_def Let_def split: if_splits)
  with True v show ?thesis
    by (auto simp: describedHandler_def turnedDown_def defaultParamDesc_def isValid_def)
next
  case False
  have v: "ResultInterfaceType F = VoidType"
    using False by (cases "ResultInterfaceType F") simp_all
  have l: "Parameters F ! nat (int (length (Parameters F)) - 1) = candidate F"
    using False by (simp add: candidate_def last_conv_nth nat_diff_distrib')
  define RequireName where
    "RequireName = (RequireAttributeOrName \<and> \<not> hasCompletionHandlerAsyncAttr F)"
  from assms False l obtain D0
    where g: "get isName conformsToError isUninhabited (asValueDecl (candidate F)) RequireName
                = Some D0"
      and d: "D = paramDesc D0 F (int (length (Parameters F)) - 1)"
    by (auto simp: find_desc_def Let_def RequireName_def split: if_splits option.splits)
  note gd = get_described[OF g[unfolded asValueDecl_def]]
  have k: "(Type D, HasError D) =
             describedHandler isName conformsToError isUninhabited F RequireAttributeOrName"
    using gd(1) False v d
    by (simp add: describedHandler_def turnedDown_def paramDesc_sel RequireName_def)
  have h: "isValid D \<longrightarrow> Handler D = Some (asValueDecl (candidate F))"
    using gd(2) d by (simp add: isValid_def paramDesc_sel asValueDecl_def)
  from k h d show ?thesis by (simp add: paramDesc_sel)
qed

theorem find_desc_described_witness:
  "find_desc sampleCompletionName sampleConforms sampleUninhabited (Some paramsFunc) True
     = Some \<lparr>Handler = Some (asValueDecl (candidate paramsFunc)), Type = PARAMS, HasError = True,
             Func = Some paramsFunc, Index = 0\<rparr>
   \<and> describedHandler sampleCompletionName sampleConforms sampleUninhabited paramsFunc True
       = (PARAMS, True)
   \<and> find_desc sampleCompletionName sampleConforms sampleUninhabited (Some resultFunc) True
     = Some \<lparr>Handler = Some (asValueDecl (candidate resultFunc)), Type = RESULT, HasError = True,
             Func = Some resultFunc, Index = 0\<rparr>
   \<and> describedHandler sampleCompletionName sampleConforms sampleUninhabited resultFunc True
       = (RESULT, True)"
proof -
  have a: "find_desc sampleCompletionName sampleConforms sampleUninhabited (Some paramsFunc) True
     = Some \<lparr>Handler = Some (asValueDecl (candidate paramsFunc)), Type = PARAMS, HasError = True,
             Func = Some paramsFunc, Index = 0\<rparr>"
    by code_simp
  have b: "find_desc sampleCompletionName sampleConforms sampleUninhabited (Some resultFunc) True
     = Some \<lparr>Handler = Some (asValueDecl (candidate resultFunc)), Type = RESULT, HasError = True,
             Func = Some resultFunc, Index = 0\<rparr>"
    by code_simp
  from find_desc_described[OF a] find_desc_described[OF b] a b show ?thesis by simp
qed

text \<open>
  C3 as stated fails for a handler that takes a \<^verbatim>\<open>Result\<close> and something else. The function
  \<^verbatim>\<open>func load(completion: (Result<Data, Error>, Int) -> Void)\<close> meets none of the reasons
  for rejection and its handler type does not have exactly one parameter, yet the
  descriptor is invalid and not of kind \<^term>\<open>PARAMS\<close>.
\<close>

theorem find_desc_counterexample:
  "find_desc sampleCompletionName sampleConforms sampleUninhabited (Some resultAndIntFunc) False
     = Some \<lparr>Handler = None, Type = INVALID, HasError = False,
             Func = Some resultAndIntFunc, Index = 0\<rparr>
   \<and> \<not> turnedDown sampleCompletionName resultAndIntFunc False
   \<and> ParamType (candidate resultAndIntFunc)
       = FunctionType [(resultOfDataError, False), (NominalType ''Int'', False)] VoidType"
  by code_simp


section \<open>Conditions recognised in part\<close>

lemma routedTo_inBlock:
  "routedTo r S C (inBlock r (onNodes (addNode (StmtNode S))) C)"
  by (cases r) (simp_all add: routedTo_def nodesOf_def inBlock_def onNodes_def addNode_def)

lemma turnedDownWith_diagnoseIn:
  "turnedDownWith Loc d C (diagnoseIn Loc d C)"
  by (simp add: turnedDownWith_def diagnoseIn_def diagnose_def)

lemma classifyUnhandled_routes:
  "if Conds = [] then routedTo (CurrentBlock C) S C (classifyUnhandled S Conds ElseStmt C)
   else if ElseStmt \<noteq> None
        then turnedDownWith (getStartLoc S) unknown_callback_conditions C
               (classifyUnhandled S Conds ElseStmt C)
        else routedTo (if goesWithError (ErrParam C) Conds then ErrorRef else SuccessRef) S C
               (classifyUnhandled S Conds ElseStmt C)"
  by (simp add: classifyUnhandled_def Let_def goesWithError_def isValidCond_def
      routedTo_inBlock turnedDownWith_diagnoseIn)

lemma classifyNode_conditional:
  assumes "conditional S = Some (Condition, ElseStmt)"
    and "allConditions Condition (UnwrapParams C) = Some (Conds, False)"
  shows "classifyNode (StmtNode S) C = Some (classifyUnhandled S Conds ElseStmt C)"
proof (cases S)
  case (IfStmt l Cond ThenStmt Else)
  with assms show ?thesis by simp
next
  case (GuardStmt l Cond Body)
  with assms show ?thesis by simp
qed (use assms in simp_all)

text \<open>
  C5, as amended. When the conditions of an \<^verbatim>\<open>if\<close> or \<^verbatim>\<open>guard\<close> are not all recognised
  as callback conditions, classifying the statement always returns, and: when no
  condition at all is recognised, the whole statement is appended to the current block,
  with or without an else; otherwise, when an else is present, the diagnostic
  \<^verbatim>\<open>unknown_callback_conditions\<close> is raised at the statement, the blocks stay as they were
  and the classification of the enclosing node list stops at this node; otherwise the
  whole statement is appended, unsplit, to the error block if the condition recognised on
  the error parameter tests for not being \<^verbatim>\<open>nil\<close> or if any recognised condition tests for
  being \<^verbatim>\<open>nil\<close>, and to the success block if not.
\<close>

theorem classifyNode_partly_recognised:
  assumes "conditional S = Some (Condition, ElseStmt)"
    and "allConditions Condition (UnwrapParams C) = Some (Conds, False)"
  shows "\<exists>C'. classifyNode (StmtNode S) C = Some C'
          \<and> (if Conds = [] then routedTo (CurrentBlock C) S C C'
             else if ElseStmt \<noteq> None
                  then turnedDownWith (getStartLoc S) unknown_callback_conditions C C'
                       \<and> classifyNodes (StmtNode S # rest) endCommentLoc C = Some C'
                  else routedTo (if goesWithError (ErrParam C) Conds then ErrorRef else SuccessRef)
                         S C C')"
proof -
  let ?C' = "classifyUnhandled S Conds ElseStmt C"
  have n: "classifyNode (StmtNode S) C = Some ?C'"
    by (rule classifyNode_conditional[OF assms])
  have r: "if Conds = [] then routedTo (CurrentBlock C) S C ?C'
           else if ElseStmt \<noteq> None
                then turnedDownWith (getStartLoc S) unknown_callback_conditions C ?C'
                else routedTo (if goesWithError (ErrParam C) Conds then ErrorRef else SuccessRef)
                       S C ?C'"
    by (rule classifyUnhandled_routes)
  have s: "classifyNodes (StmtNode S # rest) endCommentLoc C = Some ?C'"
    if "turnedDownWith (getStartLoc S) unknown_callback_conditions C ?C'"
  proof -
    from that have "HadAnyError (DiagEngine ?C')" by (simp add: turnedDownWith_def)
    with n show ?thesis by simp
  qed
  from n r s show ?thesis by (auto split: if_splits)
qed

theorem classifyNode_partly_recognised_witness:
  "allConditions (andOther (BinaryExpr (Some ''=='') (declRef 1) NilLiteralExpr))
       (UnwrapParams sampleClassifier)
     = Some ([(1, \<lparr>CondType = NIL, Subject = 1, BindPattern = None, ErrorCase = False\<rparr>)], False)
   \<and> outcome (classifyNode (StmtNode ifResIsNil) sampleClassifier)
     = Some ([], [StmtNode ifResIsNil], [], [])"
proof -
  let ?Cond = "andOther (BinaryExpr (Some ''=='') (declRef 1) NilLiteralExpr)"
  let ?Conds = "[(1, \<lparr>CondType = NIL, Subject = 1, BindPattern = None, ErrorCase = False\<rparr>)]"
  have c: "conditional ifResIsNil = Some (?Cond, None)"
    by (simp add: ifResIsNil_def)
  have a: "allConditions ?Cond (UnwrapParams sampleClassifier) = Some (?Conds, False)"
    by code_simp
  have g: "goesWithError (ErrParam sampleClassifier) ?Conds"
    by code_simp
  from classifyNode_partly_recognised[OF c a] g obtain C'
    where n: "classifyNode (StmtNode ifResIsNil) sampleClassifier = Some C'"
      and r: "routedTo ErrorRef ifResIsNil sampleClassifier C'"
    by auto
  have e: "nodesOf ErrorRef sampleClassifier = []" by code_simp
  have s: "nodesOf SuccessRef sampleClassifier = []" by code_simp
  have d: "Diagnosed (DiagEngine sampleClassifier) = []" by code_simp
  have h: "HandledSwitches sampleClassifier = []" by code_simp
  from r e have "nodesOf ErrorRef C' = [StmtNode ifResIsNil]"
    by (simp add: routedTo_def)
  moreover from r s have "nodesOf SuccessRef C' = []"
    by (simp add: routedTo_def nodesOf_def)
  moreover from r d h have "Diagnosed (DiagEngine C') = []" "HandledSwitches C' = []"
    by (simp_all add: routedTo_def)
  ultimately show ?thesis using n a by (simp add: outcome_def)
qed

text \<open>
  C5 as stated fails when the recognised condition is a test of the error parameter
  for not being \<^verbatim>\<open>nil\<close>. In \<^verbatim>\<open>if err != nil && other() { }\<close> one condition is recognised, it
  is no test for being \<^verbatim>\<open>nil\<close>, and there is no else: the statement is appended to the
  error block, where the claim has it in the success block.
\<close>

theorem classifyNode_partly_recognised_counterexample:
  "conditional ifErrIsNotNil
     = Some (andOther (BinaryExpr (Some ''!='') (declRef 2) NilLiteralExpr), None)
   \<and> allConditions (andOther (BinaryExpr (Some ''!='') (declRef 2) NilLiteralExpr))
        (UnwrapParams sampleClassifier)
     = Some ([(2, \<lparr>CondType = NOT_NIL, Subject = 2, BindPattern = None, ErrorCase = False\<rparr>)],
             False)
   \<and> outcome (classifyNode (StmtNode ifErrIsNotNil) sampleClassifier)
     = Some ([], [StmtNode ifErrIsNotNil], [], [])"
  by code_simp


section \<open>A switch over the result\<close>

lemma fold_addNode:
  "Nodes (fold addNode Es N) = Nodes N @ filter (\<lambda>n. \<not> isVarDecl n) Es"
  by (induction Es arbitrary: N) (simp_all add: addNode_def)

lemma Nodes_addPossibleCommentLoc [simp]:
  "Nodes (addPossibleCommentLoc Loc N) = Nodes N"
  by (simp add: addPossibleCommentLoc_def split: option.splits)

lemma Nodes_inBraceStmt:
  "Nodes (inBraceStmt Es RB Impl) = filter (\<lambda>n. \<not> isVarDecl n) Es"
  by (simp add: inBraceStmt_def addNodesInBraceStmt_def Let_def fold_addNode emptyNodes_def)

lemma Nodes_dropTrailing:
  "Nodes (dropTrailingReturnOrBreakIfPossible N) = withoutTrailing (Nodes N)"
proof (cases "Nodes N = []")
  case True
  then show ?thesis
    by (simp add: dropTrailingReturnOrBreakIfPossible_def hasTrailingReturnOrBreak_def
        withoutTrailing_def)
next
  case False
  show ?thesis
  proof (cases "last (Nodes N)")
    case (StmtNode s)
    then show ?thesis using False
      by (cases s) (auto simp: dropTrailingReturnOrBreakIfPossible_def
          hasTrailingReturnOrBreak_def withoutTrailing_def)
  qed (use False in \<open>auto simp: dropTrailingReturnOrBreakIfPossible_def
          hasTrailingReturnOrBreak_def withoutTrailing_def\<close>)
qed

lemma withoutTrailing_id:
  "\<not> hasTrailingReturnOrBreak N \<Longrightarrow> withoutTrailing (Nodes N) = Nodes N"
proof (cases "Nodes N = []")
  case False
  assume h: "\<not> hasTrailingReturnOrBreak N"
  show ?thesis
  proof (cases "last (Nodes N)")
    case (StmtNode s)
    then show ?thesis using False h
      by (cases s) (auto simp: hasTrailingReturnOrBreak_def withoutTrailing_def)
  qed (use False h in \<open>auto simp: hasTrailingReturnOrBreak_def withoutTrailing_def\<close>)
qed (simp add: withoutTrailing_def)

lemma setNodes_nodes:
  "nodesOf r (setNodes Block OtherBlock N C) =
     nodesOf r C @ (if r = Block then withoutTrailing (Nodes N) else [])"
  by (cases r; cases Block)
     (auto simp: setNodes_def nodesOf_def inBlock_def onNodes_def addNodes_def
        Nodes_dropTrailing withoutTrailing_id)

lemma setNodes_other [simp]:
  "DiagEngine (setNodes Block OtherBlock N C) = DiagEngine C"
  "HandledSwitches (setNodes Block OtherBlock N C) = HandledSwitches C"
  "ErrParam (setNodes Block OtherBlock N C) = ErrParam C"
  by (simp_all add: setNodes_def inBlock_def)

lemma inBlock_comment [simp]:
  "nodesOf r (inBlock b (onNodes (addPossibleCommentLoc Loc)) C) = nodesOf r C"
  "DiagEngine (inBlock b f C) = DiagEngine C"
  "HandledSwitches (inBlock b f C) = HandledSwitches C"
  "ErrParam (inBlock b f C) = ErrParam C"
  by (cases r; cases b; simp add: nodesOf_def inBlock_def onNodes_def)+

lemma addBinding_nodes:
  "addBinding CC B = Some B' \<Longrightarrow> BlockNodes B' = BlockNodes B"
  by (auto simp: addBinding_def Let_def split: option.splits if_splits prod.splits bool.splits)

lemma setBlock_nodes:
  "BlockNodes B' = BlockNodes (getBlock b (Blocks C)) \<Longrightarrow>
   nodesOf r (C\<lparr>Blocks := setBlock b B' (Blocks C)\<rparr>) = nodesOf r C"
  by (cases r; cases b; simp add: nodesOf_def)

lemma isFailureCase_ErrorCase:
  "ErrorCase (conditionFromCase Err (CaseLabelItem P w)) =
     isFailureCase (CaseStmt StartLoc Loc ft dflt [CaseLabelItem P w] Es RB Impl)"
  by (auto simp: conditionFromCase_def initFromEnumPattern_def noCondition_def
      split: Pattern.splits option.splits)

lemma classifyCases_effect:
  assumes "classifyCases Cases SwitchRBrace C = Some (C', finished)"
    and "\<not> HadAnyError (DiagEngine C)"
  shows "HandledSwitches C' = HandledSwitches C
       \<and> nodesOf SuccessRef C'
           = nodesOf SuccessRef C @ caseNodes False (takeWhile wellShaped Cases)
       \<and> nodesOf ErrorRef C'
           = nodesOf ErrorRef C @ caseNodes True (takeWhile wellShaped Cases)
       \<and> (case List.find (\<lambda>c. \<not> wellShaped c) Cases of
            None \<Rightarrow> finished \<and> DiagEngine C' = DiagEngine C
          | Some c \<Rightarrow> \<not> finished
                    \<and> Diagnosed (DiagEngine C') = Diagnosed (DiagEngine C) @ [(caseLoc c, shapeDiag c)]
                    \<and> HadAnyError (DiagEngine C'))"
  using assms
proof (induction Cases arbitrary: C)
  case Nil
  then show ?case by (simp add: caseNodes_def)
next
  case (Cons c rest)
  obtain StartLoc Loc ft dflt Items Es RB Impl
    where c: "c = CaseStmt StartLoc Loc ft dflt Items Es RB Impl" by (cases c)
  show ?case
  proof (cases "wellShaped c")
    case False
    have "C' = diagnoseIn Loc (shapeDiag c) C \<and> \<not> finished"
    proof (cases Items)
      case Nil
      with Cons.prems(1) c False show ?thesis
        by (auto simp: at_def split: if_splits)
    next
      case (Cons item more)
      obtain P w where "item = CaseLabelItem P w" by (cases item)
      with Cons.prems(1) c False Cons show ?thesis
        by (cases more) (auto simp: at_def split: if_splits)
    qed
    then have eq: "C' = diagnoseIn Loc (shapeDiag c) C" and nf: "\<not> finished" by simp_all
    have tw: "takeWhile wellShaped (c # rest) = []" using False by simp
    have fd: "List.find (\<lambda>c. \<not> wellShaped c) (c # rest) = Some c" using False by simp
    have cl: "caseLoc c = Loc" by (simp add: c)
    show ?thesis
      unfolding tw fd using nf cl
      by (simp add: eq diagnoseIn_def diagnose_def caseNodes_def nodesOf_def)
  next
    case True
    have ft: "\<not> ft" and d: "\<not> dflt" using True c by simp_all
    have "\<exists>P. Items = [CaseLabelItem P False]"
    proof (cases Items)
      case Nil
      with True c show ?thesis by simp
    next
      case (Cons item more)
      obtain P w where "item = CaseLabelItem P w" by (cases item)
      with True c Cons show ?thesis by (cases more) simp_all
    qed
    then obtain P where items: "Items = [CaseLabelItem P False]" ..
    define CC where "CC = conditionFromCase (ErrParam C) (CaseLabelItem P False)"
    define Block where "Block = (if ErrorCase CC then ErrorRef else SuccessRef)"
    define OtherBlock where "OtherBlock = (if ErrorCase CC then SuccessRef else ErrorRef)"
    define C1 where "C1 = inBlock (CurrentBlock C) (onNodes (addPossibleCommentLoc StartLoc)) C"
    define C2 where "C2 = (if rest = []
                            then inBlock Block (onNodes (addPossibleCommentLoc SwitchRBrace)) C1
                            else C1)"
    define C3 where "C3 = setNodes Block OtherBlock (inBraceStmt Es RB Impl) C2"
    have step: "classifyCases (c # rest) SwitchRBrace C =
            (case addBinding CC (getBlock Block (Blocks C3)) of
               None \<Rightarrow> None
             | Some B \<Rightarrow>
                 (let C4 = C3\<lparr>Blocks := setBlock Block B (Blocks C3)\<rparr> in
                  if HadAnyError (DiagEngine C4) then Some (C4, False)
                  else classifyCases rest SwitchRBrace C4))"
      unfolding c items CC_def Block_def OtherBlock_def C1_def C2_def C3_def
      using ft d by (simp add: at_def Let_def)
    from Cons.prems(1) step obtain B
      where b: "addBinding CC (getBlock Block (Blocks C3)) = Some B"
      by (auto split: option.splits)
    define C4 where "C4 = C3\<lparr>Blocks := setBlock Block B (Blocks C3)\<rparr>"
    have de: "DiagEngine C4 = DiagEngine C"
      by (simp add: C4_def C3_def C2_def C1_def)
    have hs: "HandledSwitches C4 = HandledSwitches C"
      by (simp add: C4_def C3_def C2_def C1_def)
    have r: "classifyCases rest SwitchRBrace C4 = Some (C', finished)"
      using Cons.prems step b de by (simp add: C4_def Let_def)
    have fc: "isFailureCase c = ErrorCase CC"
      unfolding c items CC_def by (rule isFailureCase_ErrorCase[symmetric])
    have kn: "keptNodes c = withoutTrailing (Nodes (inBraceStmt Es RB Impl))"
      by (simp add: c Nodes_inBraceStmt)
    have n23: "nodesOf r C2 = nodesOf r C" for r
      by (simp add: C2_def C1_def)
    have n4: "nodesOf r C4 = nodesOf r C @ (if r = Block then keptNodes c else [])" for r
    proof -
      have "nodesOf r C4 = nodesOf r C3"
        unfolding C4_def by (rule setBlock_nodes) (rule addBinding_nodes[OF b])
      then show ?thesis by (simp add: C3_def setNodes_nodes n23 kn)
    qed
    have nde: "\<not> HadAnyError (DiagEngine C4)" using de Cons.prems(2) by simp
    note ih = Cons.IH[OF r nde]
    have f: "List.find (\<lambda>c. \<not> wellShaped c) (c # rest) = List.find (\<lambda>c. \<not> wellShaped c) rest"
      using True by simp
    have tw: "takeWhile wellShaped (c # rest) = c # takeWhile wellShaped rest"
      using True by simp
    have cs: "caseNodes False (c # cases) =
                (if SuccessRef = Block then keptNodes c else []) @ caseNodes False cases" for cases
      by (simp add: caseNodes_def fc Block_def)
    have ce: "caseNodes True (c # cases) =
                (if ErrorRef = Block then keptNodes c else []) @ caseNodes True cases" for cases
      by (simp add: caseNodes_def fc Block_def)
    show ?thesis
      unfolding f tw using ih
      by (simp only: hs de n4 cs ce append_assoc)
  qed
qed

lemma takeWhile_all:
  "List.find (\<lambda>c. \<not> P c) xs = None \<Longrightarrow> takeWhile P xs = xs"
  by (induction xs) (auto split: if_splits)

text \<open>
  C4, as amended. Let the classifier handle a \<^verbatim>\<open>Result\<close> parameter, let the subject of a
  switch be that parameter, let no error have been diagnosed yet, and let the
  classification of the switch return. If every case is well shaped (no fallthrough,
  not the default, one pattern, no \<^verbatim>\<open>where\<close> clause), as for the two cases \<^verbatim>\<open>.success\<close> and
  \<^verbatim>\<open>.failure\<close>, then the body of each case is appended to that case's block, the error
  block for \<^verbatim>\<open>.failure\<close> and the success block otherwise, no diagnostic is raised and the
  switch is recorded as handled. If some case is not well shaped, the diagnostic of the
  first such case is raised at that case, the switch is not recorded as handled, and
  the classification of the enclosing node list stops at the switch; the bodies of the
  cases before that case have by then been appended to their blocks and stay there.
\<close>

theorem classifySwitch_on_result:
  assumes "IsResultParam C"
    and "singleSwitchSubject SubjectExpr = ErrParam C"
    and "\<not> HadAnyError (DiagEngine C)"
    and "classifySwitch (SwitchStmt StartLoc SubjectExpr Cases RBraceLoc) C = Some C'"
  shows "case List.find (\<lambda>c. \<not> wellShaped c) Cases of
           None \<Rightarrow>
             nodesOf SuccessRef C' = nodesOf SuccessRef C @ caseNodes False Cases
             \<and> nodesOf ErrorRef C' = nodesOf ErrorRef C @ caseNodes True Cases
             \<and> DiagEngine C' = DiagEngine C
             \<and> HandledSwitches C'
                 = List.insert (SwitchStmt StartLoc SubjectExpr Cases RBraceLoc)
                     (HandledSwitches C)
         | Some c \<Rightarrow>
             Diagnosed (DiagEngine C') = Diagnosed (DiagEngine C) @ [(caseLoc c, shapeDiag c)]
             \<and> HadAnyError (DiagEngine C')
             \<and> HandledSwitches C' = HandledSwitches C
             \<and> classifyNodes (StmtNode (SwitchStmt StartLoc SubjectExpr Cases RBraceLoc) # rest)
                   endCommentLoc C = Some C'
             \<and> nodesOf SuccessRef C'
                 = nodesOf SuccessRef C @ caseNodes False (takeWhile wellShaped Cases)
             \<and> nodesOf ErrorRef C'
                 = nodesOf ErrorRef C @ caseNodes True (takeWhile wellShaped Cases)"
proof -
  let ?S = "SwitchStmt StartLoc SubjectExpr Cases RBraceLoc"
  let ?C0 = "inBlock (CurrentBlock C) (onNodes (addPossibleCommentLoc StartLoc)) C"
  from assms(1,2,4) obtain C1 finished
    where cc: "classifyCases Cases RBraceLoc ?C0 = Some (C1, finished)"
      and c': "C' = (if finished
                     then C1\<lparr>HandledSwitches := List.insert ?S (HandledSwitches C1)\<rparr>
                     else C1)"
    by (auto split: option.splits)
  have e0: "\<not> HadAnyError (DiagEngine ?C0)" using assms(3) by simp
  note eff = classifyCases_effect[OF cc e0]
  from eff have h: "HandledSwitches C1 = HandledSwitches C"
    and s: "nodesOf SuccessRef C1
              = nodesOf SuccessRef C @ caseNodes False (takeWhile wellShaped Cases)"
    and e: "nodesOf ErrorRef C1
              = nodesOf ErrorRef C @ caseNodes True (takeWhile wellShaped Cases)"
    by simp_all
  show ?thesis
  proof (cases "List.find (\<lambda>c. \<not> wellShaped c) Cases")
    case None
    with eff have f: finished and d: "DiagEngine C1 = DiagEngine C" by simp_all
    from f c' have "C' = C1\<lparr>HandledSwitches := List.insert ?S (HandledSwitches C1)\<rparr>"
      by simp
    with s e d h None takeWhile_all[OF None] show ?thesis by (simp add: nodesOf_def)
  next
    case (Some c)
    with eff have f: "\<not> finished"
      and d: "Diagnosed (DiagEngine C1) = Diagnosed (DiagEngine C) @ [(caseLoc c, shapeDiag c)]"
      and a: "HadAnyError (DiagEngine C1)"
      by simp_all
    from f c' have eq: "C' = C1" by simp
    have n: "classifyNode (StmtNode ?S) C = Some C'" using assms(4) by simp
    have st: "classifyNodes (StmtNode ?S # rest) endCommentLoc C = Some C'"
      using n a eq by simp
    from eq d a h s e st Some show ?thesis by simp
  qed
qed

theorem classifySwitch_on_result_witness:
  "outcome (classifySwitch switchOnResult resultClassifier)
     = Some ([ExprNode (OtherExpr 1)], [ExprNode (OtherExpr 2)], [], [switchOnResult])
   \<and> map_option HandledSwitches (classifySwitch switchWithDefault resultClassifier) = Some []
   \<and> map_option (nodesOf SuccessRef) (classifySwitch switchWithDefault resultClassifier)
     = Some (caseNodes False [successCase])"
proof -
  have p: "IsResultParam resultClassifier"
    "singleSwitchSubject resultRef = ErrParam resultClassifier"
    "\<not> HadAnyError (DiagEngine resultClassifier)"
    by code_simp+
  have i: "nodesOf SuccessRef resultClassifier = []" "nodesOf ErrorRef resultClassifier = []"
    "Diagnosed (DiagEngine resultClassifier) = []" "HandledSwitches resultClassifier = []"
    by code_simp+
  have "classifySwitch (SwitchStmt (Some 10) resultRef [successCase, failureCase] (Some 70))
          resultClassifier \<noteq> None"
    by code_simp
  then obtain C1
    where c1: "classifySwitch (SwitchStmt (Some 10) resultRef [successCase, failureCase] (Some 70))
                 resultClassifier = Some C1"
    by auto
  have f1: "List.find (\<lambda>c. \<not> wellShaped c) [successCase, failureCase] = None"
    by code_simp
  have k1: "caseNodes False [successCase, failureCase] = [ExprNode (OtherExpr 1)]"
    "caseNodes True [successCase, failureCase] = [ExprNode (OtherExpr 2)]"
    by code_simp+
  have a: "nodesOf SuccessRef C1 = [ExprNode (OtherExpr 1)]
         \<and> nodesOf ErrorRef C1 = [ExprNode (OtherExpr 2)]
         \<and> Diagnosed (DiagEngine C1) = []
         \<and> HandledSwitches C1 = [switchOnResult]"
    using classifySwitch_on_result[OF p c1] f1 k1 i
    by (simp add: switchOnResult_def)
  have "classifySwitch (SwitchStmt (Some 10) resultRef [successCase, defaultCase] (Some 70))
          resultClassifier \<noteq> None"
    by code_simp
  then obtain C2
    where c2: "classifySwitch (SwitchStmt (Some 10) resultRef [successCase, defaultCase] (Some 70))
                 resultClassifier = Some C2"
    by auto
  have f2: "List.find (\<lambda>c. \<not> wellShaped c) [successCase, defaultCase] = Some defaultCase"
    by code_simp
  have t2: "takeWhile wellShaped [successCase, defaultCase] = [successCase]"
    by code_simp
  have b: "HandledSwitches C2 = [] \<and> nodesOf SuccessRef C2 = caseNodes False [successCase]"
    using classifySwitch_on_result[OF p c2] f2 t2 i by simp
  from a b c1 c2 show ?thesis
    by (simp add: switchOnResult_def switchWithDefault_def outcome_def)
qed

text \<open>
  C4 as stated fails for a switch whose second case is the default. The diagnostic
  \<^verbatim>\<open>callback_with_default\<close> is raised and the switch is not recorded as handled, but it is
  not left unclassified: the body of the first case, \<^verbatim>\<open>.success\<close>, is in the success
  block, which was empty before.
\<close>

theorem classifySwitch_on_result_counterexample:
  "outcome (Some resultClassifier) = Some ([], [], [], [])
   \<and> outcome (classifySwitch switchWithDefault resultClassifier)
     = Some ([ExprNode (OtherExpr 1)], [], [(Some 40, callback_with_default)], [])"
  by code_simp


section \<open>The fallback for a closure that cannot be classified\<close>



lemma emit_sel [simp]:
  "OS (emit t S) = OS S @ t" "NameSt (emit t S) = NameSt S"
  "ConverterDiag (emit t S) = ConverterDiag S" "nameFor (emit t S) D = nameFor S D"
  by (simp_all add: emit_def nameFor_def)























end
